theory Spec2Isabelle
  imports Main "HOL-Library.Word" "HOL-Library.Char_ord" "HOL-Library.List_Lexorder"
begin

section \<open>Faults\<close>

text \<open>
  A Go panic is a value of type \<open>fault\<close>; a function that can panic returns
  \<open>fault + 'a\<close> with \<open>Inl\<close> for the panic.
  \<^item> \<open>NonCollection\<close>: the explicit \<^verbatim>\<open>panic("attempt to iterate on non-collection, non-tuple type")\<close>;
  \<^item> \<open>TypeAssertion\<close>: a failed single-valued type assertion \<^verbatim>\<open>x.(T)\<close>;
  \<^item> \<open>IndexOutOfRange\<close>: a slice index outside \<open>0 \<le> i < len\<close>;
  \<^item> \<open>NotElementTyped\<close>: an element-type accessor applied to a type without one;
  \<^item> \<open>SetPanic\<close>: a panic raised inside the external set package;
  \<^item> \<open>NilDereference\<close>: a method call through a reference that holds no iterator.
\<close>

datatype fault =
    NonCollection
  | TypeAssertion
  | IndexOutOfRange
  | NotElementTyped
  | SetPanic
  | NilDereference

definition and_then :: "fault + 'a \<Rightarrow> ('a \<Rightarrow> fault + 'b) \<Rightarrow> fault + 'b" where
  "and_then m f = (case m of Inl e \<Rightarrow> Inl e | Inr x \<Rightarrow> f x)"

section \<open>Types and values\<close>

text \<open>
  Modelled from the spec: the type descriptor \<^verbatim>\<open>Type\<close> is declared outside
  \<^verbatim>\<open>element_iterator.go\<close>. The spec describes it as a closed tagged variant over
  primitive, list, map, set, tuple and object types, with the capability queries
  \<^verbatim>\<open>IsListType\<close>, \<^verbatim>\<open>IsMapType\<close>, \<^verbatim>\<open>IsSetType\<close>, \<^verbatim>\<open>IsTupleType\<close> and the accessors
  \<^verbatim>\<open>ElementType\<close> (list, map, set) and \<^verbatim>\<open>TupleElementTypes\<close>.
\<close>

datatype Type =
    TNumber
  | TString
  | TBool
  | TDynamic
  | TList Type
  | TMap Type
  | TSet Type
  | TTuple "Type list"
  | TObject "(string \<times> Type) list"

fun IsListType :: "Type \<Rightarrow> bool" where
  "IsListType (TList _) = True"
| "IsListType _ = False"

fun IsMapType :: "Type \<Rightarrow> bool" where
  "IsMapType (TMap _) = True"
| "IsMapType _ = False"

fun IsSetType :: "Type \<Rightarrow> bool" where
  "IsSetType (TSet _) = True"
| "IsSetType _ = False"

fun IsTupleType :: "Type \<Rightarrow> bool" where
  "IsTupleType (TTuple _) = True"
| "IsTupleType _ = False"

fun ElementType :: "Type \<Rightarrow> fault + Type" where
  "ElementType (TList t) = Inr t"
| "ElementType (TMap t) = Inr t"
| "ElementType (TSet t) = Inr t"
| "ElementType _ = Inl NotElementTyped"

fun TupleElementTypes :: "Type \<Rightarrow> fault + Type list" where
  "TupleElementTypes (TTuple ts) = Inr ts"
| "TupleElementTypes _ = Inl NotElementTyped"

text \<open>
  The native payload \<^verbatim>\<open>interface{}\<close> of a value, by its dynamic Go type:
  \<open>NSlice\<close> is \<^verbatim>\<open>[]interface{}\<close>, \<open>NMap\<close> is \<^verbatim>\<open>map[string]interface{}\<close>, \<open>NSet\<close> is
  \<^verbatim>\<open>set.Set\<close> (the external set package, an opaque type \<open>'s\<close>), \<open>NNil\<close> is the nil
  interface. A Go map is an association list with distinct keys; the order of the list
  is the incidental order in which \<^verbatim>\<open>range\<close> happens to visit the entries.
\<close>

datatype 's native =
    NNil
  | NNumber int
  | NString string
  | NBool bool
  | NSlice "'s native list"
  | NMap "(string \<times> 's native) list"
  | NSet 's

text \<open>
  Modelled from the spec: \<^verbatim>\<open>Value\<close> is the pair of a type and a native payload
  (fields \<^verbatim>\<open>ty\<close> and \<^verbatim>\<open>v\<close>), declared outside \<^verbatim>\<open>element_iterator.go\<close>.
\<close>

datatype 's Value = Value (val_ty: Type) (val_v: "'s native")

text \<open>
  Modelled from the spec: the value construction primitives \<^verbatim>\<open>NumberIntVal\<close> (an
  integer-valued index value, from an \<^verbatim>\<open>int64\<close>) and \<^verbatim>\<open>StringVal\<close> (a string-valued
  key) are declared outside \<^verbatim>\<open>element_iterator.go\<close>.
\<close>

definition NumberIntVal :: "64 word \<Rightarrow> 's Value" where
  "NumberIntVal i = Value TNumber (NNumber (sint i))"

definition StringVal :: "string \<Rightarrow> 's Value" where
  "StringVal s = Value TString (NString s)"

section \<open>Go primitives the iterators use\<close>

text \<open>
  Go's \<^verbatim>\<open>int\<close> is a 64-bit two's complement integer on the 64-bit platforms; \<^verbatim>\<open>idx++\<close>
  wraps around. \<^verbatim>\<open>len\<close> of a slice is between 0 and \<open>2^63 - 1\<close>, so it is read here as
  the length of the list, and \<^verbatim>\<open>idx < len(xs)\<close> compares the signed value of the word
  with it. \<^verbatim>\<open>xs[i]\<close> panics unless \<open>0 \<le> i < len(xs)\<close>.
\<close>

definition index :: "'a list \<Rightarrow> 64 word \<Rightarrow> fault + 'a" where
  "index xs i =
     (if 0 \<le> sint i \<and> sint i < int (length xs) then Inr (xs ! nat (sint i))
      else Inl IndexOutOfRange)"

text \<open>\<^verbatim>\<open>m[key]\<close> on a Go map: the zero value (the nil interface) for a missing key.\<close>

definition map_index :: "(string \<times> 's native) list \<Rightarrow> string \<Rightarrow> 's native" where
  "map_index m key = (case map_of m key of None \<Rightarrow> NNil | Some x \<Rightarrow> x)"

text \<open>The single-valued type assertions \<^verbatim>\<open>val.v.(T)\<close>: a panic on any other dynamic type.\<close>

definition assert_slice :: "'s native \<Rightarrow> fault + 's native list" where
  "assert_slice x = (case x of NSlice xs \<Rightarrow> Inr xs | _ \<Rightarrow> Inl TypeAssertion)"

definition assert_map :: "'s native \<Rightarrow> fault + (string \<times> 's native) list" where
  "assert_map x = (case x of NMap m \<Rightarrow> Inr m | _ \<Rightarrow> Inl TypeAssertion)"

definition assert_set :: "'s native \<Rightarrow> fault + 's" where
  "assert_set x = (case x of NSet s \<Rightarrow> Inr s | _ \<Rightarrow> Inl TypeAssertion)"

text \<open>
  The loop \<^verbatim>\<open>for key := range rawMap { keys = append(keys, key) }\<close>, started from the empty
  slice \<^verbatim>\<open>make([]string, 0, len(rawMap))\<close>.
\<close>

fun range_keys :: "(string \<times> 'a) list \<Rightarrow> string list \<Rightarrow> string list" where
  "range_keys [] keys = keys"
| "range_keys ((key, _) # rest) keys = range_keys rest (keys @ [key])"

text \<open>
  \<^verbatim>\<open>sort.Strings\<close> of the Go standard library sorts in increasing order of Go's \<^verbatim>\<open>\<le>\<close> on
  strings, which compares byte by byte. That order is the lexicographic order on
  \<open>char list\<close> over the order of \<open>char\<close> by code.
\<close>

definition sort_Strings :: "string list \<Rightarrow> string list" where
  "sort_Strings keys = sort keys"

section \<open>The external set package\<close>

text \<open>
  The package \<^verbatim>\<open>set\<close> is not part of this repository. Its three operations the
  iterators call are a parameter of the model: \<^verbatim>\<open>Set.Iterator()\<close> makes a cursor
  (type \<open>'c\<close>), \<^verbatim>\<open>Iterator.Next()\<close> advances it and \<^verbatim>\<open>Iterator.Value()\<close> reads it. Both
  calls on a cursor may panic and may change the cursor, so each returns the cursor's
  next state.
\<close>

record ('s, 'c) set_package =
  Set_Iterator :: "'s \<Rightarrow> 'c"
  Iterator_Next :: "'c \<Rightarrow> fault + bool \<times> 'c"
  Iterator_Value :: "'c \<Rightarrow> fault + 's native \<times> 'c"

section \<open>The four iterators\<close>

text \<open>
  The four structs. Records share one name space for their fields, so each field keeps
  its name behind the initial of its struct: \<open>l_idx\<close> is \<^verbatim>\<open>listElementIterator.idx\<close>.
  The set iterator holds its cursor (a \<^verbatim>\<open>*set.Iterator\<close> no one else holds) by value.
\<close>

record 's listElementIterator =
  l_ety :: Type
  l_vals :: "'s native list"
  l_idx :: "64 word"

record 's mapElementIterator =
  m_ety :: Type
  m_vals :: "(string \<times> 's native) list"
  m_keys :: "string list"
  m_idx :: "64 word"

record 'c setElementIterator =
  s_ety :: Type
  s_setIt :: 'c

record 's tupleElementIterator =
  t_etys :: "Type list"
  t_vals :: "'s native list"
  t_idx :: "64 word"

text \<open>The interface \<^verbatim>\<open>ElementIterator\<close>: one of the four concrete iterators.\<close>

datatype ('s, 'c) ElementIterator =
    ListIt "'s listElementIterator"
  | MapIt "'s mapElementIterator"
  | SetIt "'c setElementIterator"
  | TupleIt "'s tupleElementIterator"

text \<open>\<^verbatim>\<open>elementIterator\<close>: the iterator object the source builds, or its panic.\<close>

definition elementIterator ::
    "('s, 'c) set_package \<Rightarrow> 's Value \<Rightarrow> fault + ('s, 'c) ElementIterator" where
  "elementIterator pkg val =
     (if IsListType (val_ty val) then
        and_then (ElementType (val_ty val)) (\<lambda>ety.
        and_then (assert_slice (val_v val)) (\<lambda>vals.
        Inr (ListIt \<lparr>l_ety = ety, l_vals = vals, l_idx = - 1\<rparr>)))
      else if IsMapType (val_ty val) then
        and_then (assert_map (val_v val)) (\<lambda>rawMap.
        let keys = sort_Strings (range_keys rawMap []) in
        and_then (ElementType (val_ty val)) (\<lambda>ety.
        Inr (MapIt \<lparr>m_ety = ety, m_vals = rawMap, m_keys = keys, m_idx = - 1\<rparr>)))
      else if IsSetType (val_ty val) then
        and_then (assert_set (val_v val)) (\<lambda>rawSet.
        and_then (ElementType (val_ty val)) (\<lambda>ety.
        Inr (SetIt \<lparr>s_ety = ety, s_setIt = Set_Iterator pkg rawSet\<rparr>)))
      else if IsTupleType (val_ty val) then
        and_then (TupleElementTypes (val_ty val)) (\<lambda>etys.
        and_then (assert_slice (val_v val)) (\<lambda>vals.
        Inr (TupleIt \<lparr>t_etys = etys, t_vals = vals, t_idx = - 1\<rparr>)))
      else Inl NonCollection)"

definition listElementIterator_Element ::
    "'s listElementIterator \<Rightarrow> fault + 's Value \<times> 's Value" where
  "listElementIterator_Element it =
     (let i = l_idx it in
      and_then (index (l_vals it) i) (\<lambda>x.
      Inr (NumberIntVal i, Value (l_ety it) x)))"

definition listElementIterator_Next ::
    "'s listElementIterator \<Rightarrow> bool \<times> 's listElementIterator" where
  "listElementIterator_Next it =
     (let it' = it\<lparr>l_idx := l_idx it + 1\<rparr> in
      (sint (l_idx it') < int (length (l_vals it')), it'))"

definition mapElementIterator_Element ::
    "'s mapElementIterator \<Rightarrow> fault + 's Value \<times> 's Value" where
  "mapElementIterator_Element it =
     and_then (index (m_keys it) (m_idx it)) (\<lambda>key.
     Inr (StringVal key, Value (m_ety it) (map_index (m_vals it) key)))"

definition mapElementIterator_Next ::
    "'s mapElementIterator \<Rightarrow> bool \<times> 's mapElementIterator" where
  "mapElementIterator_Next it =
     (let it' = it\<lparr>m_idx := m_idx it + 1\<rparr> in
      (sint (m_idx it') < int (length (m_keys it')), it'))"

definition setElementIterator_Element ::
    "('s, 'c) set_package \<Rightarrow> 'c setElementIterator \<Rightarrow>
     fault + ('s Value \<times> 's Value) \<times> 'c setElementIterator" where
  "setElementIterator_Element pkg it =
     and_then (Iterator_Value pkg (s_setIt it)) (\<lambda>(x, c).
     let val = Value (s_ety it) x in
     Inr ((val, val), it\<lparr>s_setIt := c\<rparr>))"

definition setElementIterator_Next ::
    "('s, 'c) set_package \<Rightarrow> 'c setElementIterator \<Rightarrow> fault + bool \<times> 'c setElementIterator" where
  "setElementIterator_Next pkg it =
     and_then (Iterator_Next pkg (s_setIt it)) (\<lambda>(b, c).
     Inr (b, it\<lparr>s_setIt := c\<rparr>))"

definition tupleElementIterator_Element ::
    "'s tupleElementIterator \<Rightarrow> fault + 's Value \<times> 's Value" where
  "tupleElementIterator_Element it =
     (let i = t_idx it in
      and_then (index (t_etys it) i) (\<lambda>ety.
      and_then (index (t_vals it) i) (\<lambda>x.
      Inr (NumberIntVal i, Value ety x))))"

definition tupleElementIterator_Next ::
    "'s tupleElementIterator \<Rightarrow> bool \<times> 's tupleElementIterator" where
  "tupleElementIterator_Next it =
     (let it' = it\<lparr>t_idx := t_idx it + 1\<rparr> in
      (sint (t_idx it') < int (length (t_vals it')), it'))"

text \<open>
  The two methods of the interface, dispatched on the concrete iterator. Each returns
  the iterator as the call leaves it.
\<close>

fun Next ::
    "('s, 'c) set_package \<Rightarrow> ('s, 'c) ElementIterator \<Rightarrow> fault + bool \<times> ('s, 'c) ElementIterator" where
  "Next pkg (ListIt it) = (case listElementIterator_Next it of (b, it') \<Rightarrow> Inr (b, ListIt it'))"
| "Next pkg (MapIt it) = (case mapElementIterator_Next it of (b, it') \<Rightarrow> Inr (b, MapIt it'))"
| "Next pkg (SetIt it) =
     and_then (setElementIterator_Next pkg it) (\<lambda>(b, it'). Inr (b, SetIt it'))"
| "Next pkg (TupleIt it) = (case tupleElementIterator_Next it of (b, it') \<Rightarrow> Inr (b, TupleIt it'))"

fun Element ::
    "('s, 'c) set_package \<Rightarrow> ('s, 'c) ElementIterator \<Rightarrow>
     fault + ('s Value \<times> 's Value) \<times> ('s, 'c) ElementIterator" where
  "Element pkg (ListIt it) =
     and_then (listElementIterator_Element it) (\<lambda>kv. Inr (kv, ListIt it))"
| "Element pkg (MapIt it) =
     and_then (mapElementIterator_Element it) (\<lambda>kv. Inr (kv, MapIt it))"
| "Element pkg (SetIt it) =
     and_then (setElementIterator_Element pkg it) (\<lambda>(kv, it'). Inr (kv, SetIt it'))"
| "Element pkg (TupleIt it) =
     and_then (tupleElementIterator_Element it) (\<lambda>kv. Inr (kv, TupleIt it))"

section \<open>Driving an iterator\<close>

text \<open>
  \<open>pull pkg k it\<close> makes \<open>k\<close> calls of \<^verbatim>\<open>Next\<close> on the iterator, each followed by a
  call of \<^verbatim>\<open>Element\<close> when it returned true, as the usage pattern of the interface
  prescribes. It returns what each call of \<^verbatim>\<open>Next\<close> gave (\<open>Some (key, value)\<close> after
  true, \<open>None\<close> after false) and the iterator as the calls leave it.
\<close>

fun pull ::
    "('s, 'c) set_package \<Rightarrow> nat \<Rightarrow> ('s, 'c) ElementIterator \<Rightarrow>
     fault + ('s Value \<times> 's Value) option list \<times> ('s, 'c) ElementIterator" where
  "pull pkg 0 it = Inr ([], it)"
| "pull pkg (Suc k) it =
     and_then (Next pkg it) (\<lambda>(b, it1).
     if b then
       and_then (Element pkg it1) (\<lambda>(kv, it2).
       and_then (pull pkg k it2) (\<lambda>(obs, it3). Inr (Some kv # obs, it3)))
     else
       and_then (pull pkg k it1) (\<lambda>(obs, it3). Inr (None # obs, it3)))"

text \<open>
  The external cursor driven in the same pattern, without the iterator around it: what
  the set package alone yields.
\<close>

fun cursor_pull ::
    "('s, 'c) set_package \<Rightarrow> nat \<Rightarrow> 'c \<Rightarrow> fault + 's native option list \<times> 'c" where
  "cursor_pull pkg 0 c = Inr ([], c)"
| "cursor_pull pkg (Suc k) c =
     and_then (Iterator_Next pkg c) (\<lambda>(b, c1).
     if b then
       and_then (Iterator_Value pkg c1) (\<lambda>(x, c2).
       and_then (cursor_pull pkg k c2) (\<lambda>(obs, c3). Inr (Some x # obs, c3)))
     else
       and_then (cursor_pull pkg k c1) (\<lambda>(obs, c3). Inr (None # obs, c3)))"

section \<open>Iterator objects and references\<close>

text \<open>
  \<^verbatim>\<open>elementIterator\<close> returns a pointer to a freshly allocated iterator object, and the
  methods have pointer receivers. The heap is the list of the iterator objects
  allocated so far; a reference is a position in it. The slices and the map an
  iterator holds are only ever read, so an object carries them by value.
\<close>

type_synonym ('s, 'c) heap = "('s, 'c) ElementIterator list"

definition new_elementIterator ::
    "('s, 'c) set_package \<Rightarrow> 's Value \<Rightarrow> ('s, 'c) heap \<Rightarrow> fault + nat \<times> ('s, 'c) heap" where
  "new_elementIterator pkg val h =
     and_then (elementIterator pkg val) (\<lambda>it. Inr (length h, h @ [it]))"

text \<open>
  A call through a reference returns its result, or the panic, and the heap as the call
  leaves it. An index iterator's \<^verbatim>\<open>Element\<close> assigns to nothing and its \<^verbatim>\<open>Next\<close> cannot
  panic; a panic inside the set package is taken to leave the cursor as it was.
\<close>

definition Next_at ::
    "('s, 'c) set_package \<Rightarrow> nat \<Rightarrow> ('s, 'c) heap \<Rightarrow> (fault + bool) \<times> ('s, 'c) heap" where
  "Next_at pkg r h =
     (if r < length h then
        (case Next pkg (h ! r) of
           Inl e \<Rightarrow> (Inl e, h)
         | Inr (b, it') \<Rightarrow> (Inr b, h[r := it']))
      else (Inl NilDereference, h))"

definition Element_at ::
    "('s, 'c) set_package \<Rightarrow> nat \<Rightarrow> ('s, 'c) heap \<Rightarrow>
     (fault + 's Value \<times> 's Value) \<times> ('s, 'c) heap" where
  "Element_at pkg r h =
     (if r < length h then
        (case Element pkg (h ! r) of
           Inl e \<Rightarrow> (Inl e, h)
         | Inr (kv, it') \<Rightarrow> (Inr kv, h[r := it']))
      else (Inl NilDereference, h))"

text \<open>
  Any sequence of calls on one reference, a caller recovering from each panic: the
  outcome of every call, in order, and the final heap.
\<close>

datatype call = CallNext | CallElement

datatype 's outcome =
    NextReturned bool
  | ElementReturned "'s Value \<times> 's Value"
  | Panicked fault

fun call_at ::
    "('s, 'c) set_package \<Rightarrow> nat \<Rightarrow> call \<Rightarrow> ('s, 'c) heap \<Rightarrow> 's outcome \<times> ('s, 'c) heap" where
  "call_at pkg r CallNext h =
     (case Next_at pkg r h of
        (Inl e, h') \<Rightarrow> (Panicked e, h')
      | (Inr b, h') \<Rightarrow> (NextReturned b, h'))"
| "call_at pkg r CallElement h =
     (case Element_at pkg r h of
        (Inl e, h') \<Rightarrow> (Panicked e, h')
      | (Inr kv, h') \<Rightarrow> (ElementReturned kv, h'))"

fun calls_at ::
    "('s, 'c) set_package \<Rightarrow> nat \<Rightarrow> call list \<Rightarrow> ('s, 'c) heap \<Rightarrow>
     's outcome list \<times> ('s, 'c) heap" where
  "calls_at pkg r [] h = ([], h)"
| "calls_at pkg r (c # cs) h =
     (case call_at pkg r c h of
        (out, h1) \<Rightarrow> (case calls_at pkg r cs h1 of (outs, h2) \<Rightarrow> (out # outs, h2)))"

section \<open>Reading an iterator's state\<close>

text \<open>
  The list, map and tuple iterators keep an integer index into a sequence (the
  elements, or the sorted keys). \<open>position\<close> is that index, \<open>extent\<close> the length it is
  compared with, \<open>at_position i\<close> the same iterator with the index set to \<open>i\<close>, and
  \<open>element_at it i\<close> the pair that belongs to place \<open>i\<close> of the sequence.
\<close>

fun indexed :: "('s, 'c) ElementIterator \<Rightarrow> bool" where
  "indexed (SetIt _) = False"
| "indexed _ = True"

fun position :: "('s, 'c) ElementIterator \<Rightarrow> 64 word" where
  "position (ListIt it) = l_idx it"
| "position (MapIt it) = m_idx it"
| "position (TupleIt it) = t_idx it"
| "position (SetIt _) = 0"

fun extent :: "('s, 'c) ElementIterator \<Rightarrow> nat" where
  "extent (ListIt it) = length (l_vals it)"
| "extent (MapIt it) = length (m_keys it)"
| "extent (TupleIt it) = length (t_vals it)"
| "extent (SetIt _) = 0"

fun at_position :: "64 word \<Rightarrow> ('s, 'c) ElementIterator \<Rightarrow> ('s, 'c) ElementIterator" where
  "at_position i (ListIt it) = ListIt (it\<lparr>l_idx := i\<rparr>)"
| "at_position i (MapIt it) = MapIt (it\<lparr>m_idx := i\<rparr>)"
| "at_position i (TupleIt it) = TupleIt (it\<lparr>t_idx := i\<rparr>)"
| "at_position i (SetIt it) = SetIt it"

text \<open>A tuple iterator has a type for each of its places.\<close>

fun typed :: "('s, 'c) ElementIterator \<Rightarrow> bool" where
  "typed (TupleIt it) = (length (t_vals it) \<le> length (t_etys it))"
| "typed _ = True"

fun element_at :: "('s, 'c) ElementIterator \<Rightarrow> nat \<Rightarrow> 's Value \<times> 's Value" where
  "element_at (ListIt it) i =
     (Value TNumber (NNumber (int i)), Value (l_ety it) (l_vals it ! i))"
| "element_at (MapIt it) i =
     (Value TString (NString (m_keys it ! i)),
      Value (m_ety it) (map_index (m_vals it) (m_keys it ! i)))"
| "element_at (TupleIt it) i =
     (Value TNumber (NNumber (int i)), Value (t_etys it ! i) (t_vals it ! i))"
| "element_at (SetIt it) i = (Value TDynamic NNil, Value TDynamic NNil)"

section \<open>Well-formed collection values\<close>

text \<open>
  The collection types are the four the factory accepts. The invariant of a value, as
  far as the factory looks: a list-typed or tuple-typed value holds a slice, a map-typed
  value a string-keyed map, a set-typed value a set of the set package.
  \<open>kind_matches\<close> relates a collection type to the concrete iterator for it.
\<close>

definition is_collection :: "Type \<Rightarrow> bool" where
  "is_collection ty = (IsListType ty \<or> IsMapType ty \<or> IsSetType ty \<or> IsTupleType ty)"

fun shape_matches :: "Type \<Rightarrow> 's native \<Rightarrow> bool" where
  "shape_matches (TList _) (NSlice _) = True"
| "shape_matches (TMap _) (NMap _) = True"
| "shape_matches (TSet _) (NSet _) = True"
| "shape_matches (TTuple _) (NSlice _) = True"
| "shape_matches _ _ = False"

fun kind_matches :: "Type \<Rightarrow> ('s, 'c) ElementIterator \<Rightarrow> bool" where
  "kind_matches (TList _) (ListIt _) = True"
| "kind_matches (TMap _) (MapIt _) = True"
| "kind_matches (TSet _) (SetIt _) = True"
| "kind_matches (TTuple _) (TupleIt _) = True"
| "kind_matches _ _ = False"

section \<open>The same value, ranged over again\<close>

text \<open>
  Each call of \<^verbatim>\<open>elementIterator\<close> on a map-typed value ranges over the Go map anew, and
  \<^verbatim>\<open>range\<close> may visit the entries in another order each time. Two association lists
  stand for the same Go map when both have distinct keys and the same entries.
  \<open>same_value\<close> relates a value to itself as a later call may see it: equal, but for the
  order of the entries of a map payload. \<open>same_iterator\<close> is the same for iterators: equal,
  but for the order of the entries of the map a map iterator looks values up in.
\<close>

definition same_entries :: "(string \<times> 'a) list \<Rightarrow> (string \<times> 'a) list \<Rightarrow> bool" where
  "same_entries m m' = (distinct (map fst m) \<and> distinct (map fst m') \<and> set m = set m')"

fun same_value :: "'s Value \<Rightarrow> 's Value \<Rightarrow> bool" where
  "same_value (Value ty (NMap m)) (Value ty' (NMap m')) =
     (ty = ty' \<and> (m = m' \<or> same_entries m m'))"
| "same_value val val' = (val = val')"

fun same_iterator :: "('s, 'c) ElementIterator \<Rightarrow> ('s, 'c) ElementIterator \<Rightarrow> bool" where
  "same_iterator (MapIt a) (MapIt b) =
     (m_ety a = m_ety b \<and> m_keys a = m_keys b \<and> m_idx a = m_idx b \<and>
      (m_vals a = m_vals b \<or> same_entries (m_vals a) (m_vals b)))"
| "same_iterator a b = (a = b)"

section \<open>A small set package\<close>

text \<open>
  One set package to run the model on: a set of integers kept as the list of its
  members. A cursor holds the members still to come, the current member, and the number
  of times \<^verbatim>\<open>Value\<close> has been called on it.
\<close>

definition sample_set :: "(int list, int list \<times> int option \<times> nat) set_package" where
  "sample_set =
     \<lparr>Set_Iterator = (\<lambda>s. (s, None, 0)),
      Iterator_Next = (\<lambda>(rest, cur, reads).
        case rest of
          [] \<Rightarrow> Inr (False, ([], None, reads))
        | x # xs \<Rightarrow> Inr (True, (xs, Some x, reads))),
      Iterator_Value = (\<lambda>(rest, cur, reads).
        case cur of
          None \<Rightarrow> Inl SetPanic
        | Some x \<Rightarrow> Inr (NNumber x, (rest, cur, Suc reads)))\<rparr>"

section \<open>Basic facts\<close>

lemma and_then_simps:
  "and_then (Inl e) f = Inl e"
  "and_then (Inr x) f = f x"
  by (simp_all add: and_then_def)

lemma sint_plus_nat:
  fixes w :: "64 word"
  assumes "- (2 ^ 63) \<le> sint w + int k" "sint w + int k < 2 ^ 63"
  shows "sint (w + word_of_nat k) = sint w + int k"
proof -
  have "(w + word_of_nat k) = word_of_int (sint w + int k)"
    by simp
  then have "sint (w + word_of_nat k) = signed_take_bit 63 (sint w + int k)"
    by (simp only: sint_sbintrunc') simp
  also have "\<dots> = sint w + int k"
    using assms by (intro signed_take_bit_int_eq_self) simp_all
  finally show ?thesis .
qed

lemma sint_plus_one:
  fixes w :: "64 word"
  assumes "sint w < 2 ^ 63 - 1"
  shows "sint (w + 1) = sint w + 1"
  using sint_plus_nat [of w 1] assms sint_ge [of w] by simp

lemma at_position_simps [simp]:
  "indexed (at_position i it) = indexed it"
  "extent (at_position i it) = extent it"
  "typed (at_position i it) = typed it"
  "element_at (at_position i it) = element_at it"
  "at_position j (at_position i it) = at_position j it"
  "indexed it \<Longrightarrow> position (at_position i it) = i"
  "at_position (position it) it = it"
  by (cases it; simp add: fun_eq_iff)+

lemma Next_indexed:
  "indexed it \<Longrightarrow>
   Next pkg it = Inr (sint (position it + 1) < int (extent it), at_position (position it + 1) it)"
  by (cases it)
    (simp_all add: listElementIterator_Next_def mapElementIterator_Next_def
      tupleElementIterator_Next_def Let_def)

lemma Element_in_range:
  "indexed it \<Longrightarrow> typed it \<Longrightarrow> 0 \<le> sint (position it) \<Longrightarrow>
   sint (position it) < int (extent it) \<Longrightarrow>
   Element pkg it = Inr (element_at it (nat (sint (position it))), it)"
  by (cases it)
    (simp_all add: listElementIterator_Element_def mapElementIterator_Element_def
      tupleElementIterator_Element_def Let_def index_def and_then_simps NumberIntVal_def
      StringVal_def)

lemma Element_out_of_range:
  "indexed it \<Longrightarrow> \<not> (0 \<le> sint (position it) \<and> sint (position it) < int (extent it)) \<Longrightarrow>
   Element pkg it = Inl IndexOutOfRange"
  by (cases it)
    (auto simp add: listElementIterator_Element_def mapElementIterator_Element_def
      tupleElementIterator_Element_def Let_def index_def and_then_simps)

lemma pull_add:
  "pull pkg (a + b) it =
     and_then (pull pkg a it) (\<lambda>(obs, it1).
     and_then (pull pkg b it1) (\<lambda>(obs', it2). Inr (obs @ obs', it2)))"
proof (induction a arbitrary: it)
  case 0
  show ?case by (cases "pull pkg b it") (auto simp: and_then_simps)
next
  case (Suc a)
  show ?case
    by (auto simp: and_then_def Suc split: sum.splits prod.splits)
qed

lemma pull_run:
  assumes "indexed it" "typed it" "extent it < 2 ^ 63"
  shows "j + k = extent it \<Longrightarrow> position it = word_of_nat j - 1 \<Longrightarrow>
    pull pkg k it =
      Inr (map (\<lambda>i. Some (element_at it i)) [j..<extent it],
           at_position (word_of_nat (extent it) - 1) it)"
  using assms
proof (induction k arbitrary: j it)
  case 0
  then show ?case by (cases it) simp_all
next
  case (Suc k)
  have j: "int j < 2 ^ 63" "j < extent it" using Suc.prems by simp_all
  have s: "sint (word_of_nat j :: 64 word) = int j"
    using sint_plus_nat [of 0 j] j by simp
  let ?it1 = "at_position (word_of_nat j) it"
  have n: "Next pkg it = Inr (True, ?it1)"
    using Suc.prems j by (simp add: Next_indexed s)
  have e: "Element pkg ?it1 = Inr (element_at it j, ?it1)"
    using Element_in_range [of ?it1 pkg] Suc.prems j by (simp add: s)
  have "pull pkg k ?it1 =
      Inr (map (\<lambda>i. Some (element_at ?it1 i)) [Suc j..<extent ?it1],
           at_position (word_of_nat (extent ?it1) - 1) ?it1)"
    using Suc.prems by (intro Suc.IH) simp_all
  then show ?case
    using j by (simp add: n e and_then_simps upt_conv_Cons)
qed

lemma pull_exhausted:
  assumes "indexed it" "int (extent it) \<le> sint (position it) + 1"
  shows "sint (position it) + int k < 2 ^ 63 \<Longrightarrow>
    pull pkg k it = Inr (replicate k None, at_position (position it + word_of_nat k) it)"
  using assms
proof (induction k arbitrary: it)
  case 0
  then show ?case by simp
next
  case (Suc k)
  let ?it1 = "at_position (position it + 1) it"
  have s: "sint (position it + 1) = sint (position it) + 1"
    using Suc.prems by (intro sint_plus_one) simp
  have n: "Next pkg it = Inr (False, ?it1)"
    using Suc.prems by (simp add: Next_indexed s)
  have "pull pkg k ?it1 = Inr (replicate k None, at_position (position ?it1 + word_of_nat k) ?it1)"
    using Suc.prems by (intro Suc.IH) (simp_all add: s)
  then show ?case
    using Suc.prems by (simp add: n and_then_simps add.assoc)
qed

section \<open>Lists and tuples: index order\<close>

lemma elementIterator_list:
  "elementIterator pkg (Value (TList ety) (NSlice vals)) =
     Inr (ListIt \<lparr>l_ety = ety, l_vals = vals, l_idx = - 1\<rparr>)"
  by (simp add: elementIterator_def and_then_simps assert_slice_def)

lemma elementIterator_tuple:
  "elementIterator pkg (Value (TTuple etys) (NSlice vals)) =
     Inr (TupleIt \<lparr>t_etys = etys, t_vals = vals, t_idx = - 1\<rparr>)"
  by (simp add: elementIterator_def and_then_simps assert_slice_def)

lemma pull_fresh:
  assumes "indexed it" "typed it" "extent it < 2 ^ 63" "position it = - 1"
  shows "pull pkg (Suc (extent it)) it =
      Inr (map (\<lambda>i. Some (element_at it i)) [0..<extent it] @ [None],
           at_position (word_of_nat (extent it)) it)"
proof -
  let ?it1 = "at_position (word_of_nat (extent it) - 1) it"
  have a: "pull pkg (extent it) it = Inr (map (\<lambda>i. Some (element_at it i)) [0..<extent it], ?it1)"
    using assms by (intro pull_run) simp_all
  have s: "sint (word_of_nat (extent it) - 1 :: 64 word) = int (extent it) - 1"
    using sint_plus_nat [of "- 1" "extent it"] assms(3) by simp
  have b: "pull pkg (Suc 0) ?it1 =
      Inr (replicate (Suc 0) None, at_position (position ?it1 + word_of_nat (Suc 0)) ?it1)"
    using assms by (intro pull_exhausted) (simp_all add: s)
  have "pull pkg (extent it + 1) it =
      Inr (map (\<lambda>i. Some (element_at it i)) [0..<extent it] @ [None],
           at_position (word_of_nat (extent it)) it)"
    unfolding pull_add using assms(1) by (simp add: a b and_then_simps del: pull.simps)
  then show ?thesis by simp
qed

text \<open>
  C1. A list-typed or tuple-typed value whose sequence has \<open>N\<close> elements (a Go slice:
  \<open>N < 2^63\<close>; a tuple with a type for each place): the iterator \<^verbatim>\<open>elementIterator\<close>
  returns starts at index \<open>-1\<close>, and \<open>N + 1\<close> calls of \<^verbatim>\<open>Next\<close>, each followed by
  \<^verbatim>\<open>Element\<close> when it returned true, give \<open>N\<close> times true, with the keys the number
  values \<open>0, 1, \<dots>, N - 1\<close> in this order and with key \<open>i\<close> the element at place \<open>i\<close> of
  the sequence, and then false.
\<close>

theorem list_tuple_keys_in_index_order:
  assumes "length vals < 2 ^ 63"
  shows "elementIterator pkg (Value (TList ety) (NSlice vals)) =
           Inr (ListIt \<lparr>l_ety = ety, l_vals = vals, l_idx = - 1\<rparr>) \<and>
         pull pkg (Suc (length vals)) (ListIt \<lparr>l_ety = ety, l_vals = vals, l_idx = - 1\<rparr>) =
           Inr (map (\<lambda>i. Some (Value TNumber (NNumber (int i)), Value ety (vals ! i)))
                  [0..<length vals] @ [None],
                ListIt \<lparr>l_ety = ety, l_vals = vals, l_idx = word_of_nat (length vals)\<rparr>) \<and>
         elementIterator pkg (Value (TTuple etys) (NSlice vals)) =
           Inr (TupleIt \<lparr>t_etys = etys, t_vals = vals, t_idx = - 1\<rparr>) \<and>
         (length vals \<le> length etys \<longrightarrow>
          pull pkg (Suc (length vals)) (TupleIt \<lparr>t_etys = etys, t_vals = vals, t_idx = - 1\<rparr>) =
            Inr (map (\<lambda>i. Some (Value TNumber (NNumber (int i)), Value (etys ! i) (vals ! i)))
                   [0..<length vals] @ [None],
                 TupleIt \<lparr>t_etys = etys, t_vals = vals, t_idx = word_of_nat (length vals)\<rparr>))"
proof (intro conjI impI)
  show "pull pkg (Suc (length vals)) (ListIt \<lparr>l_ety = ety, l_vals = vals, l_idx = - 1\<rparr>) =
           Inr (map (\<lambda>i. Some (Value TNumber (NNumber (int i)), Value ety (vals ! i)))
                  [0..<length vals] @ [None],
                ListIt \<lparr>l_ety = ety, l_vals = vals, l_idx = word_of_nat (length vals)\<rparr>)"
    using pull_fresh [of "ListIt \<lparr>l_ety = ety, l_vals = vals, l_idx = - 1\<rparr>" pkg] assms
    by simp
next
  assume "length vals \<le> length etys"
  then show "pull pkg (Suc (length vals)) (TupleIt \<lparr>t_etys = etys, t_vals = vals, t_idx = - 1\<rparr>) =
            Inr (map (\<lambda>i. Some (Value TNumber (NNumber (int i)), Value (etys ! i) (vals ! i)))
                   [0..<length vals] @ [None],
                 TupleIt \<lparr>t_etys = etys, t_vals = vals, t_idx = word_of_nat (length vals)\<rparr>)"
    using pull_fresh [of "TupleIt \<lparr>t_etys = etys, t_vals = vals, t_idx = - 1\<rparr>" pkg] assms
    by simp
qed (simp_all add: elementIterator_list elementIterator_tuple)

theorem list_tuple_keys_in_index_order_witness:
  "length [NString ''x'', NNumber 7 :: int list native] < 2 ^ 63 \<and>
   elementIterator sample_set (Value (TList TString) (NSlice [NString ''x'', NNumber 7])) =
     Inr (ListIt \<lparr>l_ety = TString, l_vals = [NString ''x'', NNumber 7], l_idx = - 1\<rparr>) \<and>
   pull sample_set (Suc (Suc (Suc 0))) (ListIt \<lparr>l_ety = TString, l_vals = [NString ''x'', NNumber 7], l_idx = - 1\<rparr>) =
     Inr ([Some (Value TNumber (NNumber 0), Value TString (NString ''x'')),
           Some (Value TNumber (NNumber 1), Value TString (NNumber 7)),
           None],
          ListIt \<lparr>l_ety = TString, l_vals = [NString ''x'', NNumber 7], l_idx = 2\<rparr>) \<and>
   length [NString ''x'', NNumber 7 :: int list native] \<le> length [TString, TNumber] \<and>
   pull sample_set (Suc (Suc (Suc 0)))
      (TupleIt \<lparr>t_etys = [TString, TNumber], t_vals = [NString ''x'', NNumber 7], t_idx = - 1\<rparr>) =
     Inr ([Some (Value TNumber (NNumber 0), Value TString (NString ''x'')),
           Some (Value TNumber (NNumber 1), Value TNumber (NNumber 7)),
           None],
          TupleIt \<lparr>t_etys = [TString, TNumber], t_vals = [NString ''x'', NNumber 7], t_idx = 2\<rparr>)"
  using list_tuple_keys_in_index_order
    [of "[NString ''x'', NNumber 7]" sample_set TString "[TString, TNumber]"]
  by (simp add: upt_conv_Cons del: pull.simps)

section \<open>Maps: sorted key order\<close>

lemma range_keys_append: "range_keys m keys = keys @ map fst m"
  by (induction m keys rule: range_keys.induct) simp_all

lemma elementIterator_map:
  "elementIterator pkg (Value (TMap ety) (NMap rawMap)) =
     Inr (MapIt \<lparr>m_ety = ety, m_vals = rawMap, m_keys = sort (map fst rawMap), m_idx = - 1\<rparr>)"
  by (simp add: elementIterator_def and_then_simps assert_map_def sort_Strings_def
      range_keys_append)

lemma map_over_places: "map (\<lambda>i. f (xs ! i)) [0..<length xs] = map f xs"
proof -
  have "map (\<lambda>i. f (xs ! i)) [0..<length xs] = map f (map (\<lambda>i. xs ! i) [0..<length xs])"
    by (simp add: comp_def)
  also have "\<dots> = map f xs"
    by (simp only: map_nth)
  finally show ?thesis .
qed

lemma string_order_bytewise:
  "\<not> s < ([] :: string)"
  "([] :: string) < a # s"
  "(a # s < b # t) = ((of_char a :: nat) < of_char b \<or> a = b \<and> s < t)"
  by (simp_all add: less_char_def)

lemma sort_distinct_keys:
  assumes "distinct (map fst rawMap)"
  shows "sort (map fst rawMap) = sorted_list_of_set (fst ` set rawMap)"
proof -
  have "sorted_list_of_set (set (map fst rawMap)) = sort (remdups (map fst rawMap))"
    by (rule sorted_list_of_set_sort_remdups)
  also have "remdups (map fst rawMap) = map fst rawMap"
    using assms by (rule distinct_remdups_id)
  finally show ?thesis by (simp only: set_map)
qed

lemma storage_order_irrelevant:
  assumes "distinct (map fst m)" "distinct (map fst m')" "set m' = set m"
  shows "sort (map fst m') = sort (map fst m)" and "map_index m' = map_index m"
proof -
  show "sort (map fst m') = sort (map fst m)"
    using assms by (simp add: sort_distinct_keys)
  have "map_of m' = map_of m"
    using assms by (simp add: map_of_inject_set)
  then show "map_index m' = map_index m"
    by (simp add: map_index_def fun_eq_iff)
qed

text \<open>
  C2. A map-typed value (a Go map: distinct keys, fewer than \<open>2^63\<close> entries): the keys
  the iterator yields, one per successful \<^verbatim>\<open>Next\<close>, are the keys of the backing map
  sorted in increasing byte-wise lexicographic order, each with the value the map holds
  for it. The sorted key sequence is a function of the set of keys alone, so every
  storage order of the same entries gives the same keys and the same values. The map
  with the entries \<open>"b": 1\<close> and \<open>"a": 2\<close> yields \<open>"a"\<close>, then \<open>"b"\<close>.
\<close>

theorem map_keys_in_sorted_order:
  assumes "distinct (map fst rawMap)" and "length rawMap < 2 ^ 63"
  shows "elementIterator pkg (Value (TMap ety) (NMap rawMap)) =
           Inr (MapIt \<lparr>m_ety = ety, m_vals = rawMap, m_keys = sort (map fst rawMap), m_idx = - 1\<rparr>) \<and>
         pull pkg (Suc (length rawMap))
           (MapIt \<lparr>m_ety = ety, m_vals = rawMap, m_keys = sort (map fst rawMap), m_idx = - 1\<rparr>) =
           Inr (map (\<lambda>key. Some (Value TString (NString key), Value ety (map_index rawMap key)))
                  (sort (map fst rawMap)) @ [None],
                MapIt \<lparr>m_ety = ety, m_vals = rawMap, m_keys = sort (map fst rawMap),
                       m_idx = word_of_nat (length rawMap)\<rparr>) \<and>
         sort (map fst rawMap) = sorted_list_of_set (fst ` set rawMap) \<and>
         sorted_wrt (<) (sort (map fst rawMap)) \<and>
         (\<forall>key x. (key, x) \<in> set rawMap \<longrightarrow> map_index rawMap key = x) \<and>
         (\<forall>rawMap'. distinct (map fst rawMap') \<and> set rawMap' = set rawMap \<longrightarrow>
            sort (map fst rawMap') = sort (map fst rawMap) \<and>
            map_index rawMap' = map_index rawMap)"
proof (intro conjI allI impI)
  let ?it = "MapIt \<lparr>m_ety = ety, m_vals = rawMap, m_keys = sort (map fst rawMap), m_idx = - 1\<rparr>"
  have "pull pkg (Suc (extent ?it)) ?it =
      Inr (map (\<lambda>i. Some (element_at ?it i)) [0..<extent ?it] @ [None],
           at_position (word_of_nat (extent ?it)) ?it)"
    using pull_fresh [of ?it pkg] assms by simp
  moreover have "map (\<lambda>i. Some (element_at ?it i)) [0..<extent ?it] =
      map (\<lambda>key. Some (Value TString (NString key), Value ety (map_index rawMap key)))
        (sort (map fst rawMap))"
    using map_over_places [of "\<lambda>key. Some (Value TString (NString key), Value ety (map_index rawMap key))"
        "sort (map fst rawMap)"]
    by simp
  ultimately show "pull pkg (Suc (length rawMap)) ?it =
           Inr (map (\<lambda>key. Some (Value TString (NString key), Value ety (map_index rawMap key)))
                  (sort (map fst rawMap)) @ [None],
                MapIt \<lparr>m_ety = ety, m_vals = rawMap, m_keys = sort (map fst rawMap),
                       m_idx = word_of_nat (length rawMap)\<rparr>)"
    by simp
next
  show "sort (map fst rawMap) = sorted_list_of_set (fst ` set rawMap)"
    using assms(1) by (rule sort_distinct_keys)
next
  fix rawMap' :: "(string \<times> 'a native) list"
  assume "distinct (map fst rawMap') \<and> set rawMap' = set rawMap"
  then show "sort (map fst rawMap') = sort (map fst rawMap)"
    using assms(1) storage_order_irrelevant(1) [of rawMap rawMap'] by simp
next
  fix rawMap' :: "(string \<times> 'a native) list"
  assume "distinct (map fst rawMap') \<and> set rawMap' = set rawMap"
  then show "map_index rawMap' = map_index rawMap"
    using assms(1) storage_order_irrelevant(2) [of rawMap rawMap'] by simp
next
  have "distinct (sort (map fst rawMap))" using assms(1) by simp
  then show "sorted_wrt (<) (sort (map fst rawMap))"
    by (simp add: strict_sorted_iff)
next
  fix key x assume "(key, x) \<in> set rawMap"
  then show "map_index rawMap key = x"
    using assms(1) by (simp add: map_index_def)
qed (simp add: elementIterator_map)

theorem map_keys_in_sorted_order_witness:
  "distinct (map fst [(''b'', NNumber 1), (''a'', NNumber 2 :: int list native)]) \<and>
   length [(''b'', NNumber 1), (''a'', NNumber 2 :: int list native)] < 2 ^ 63 \<and>
   elementIterator sample_set (Value (TMap TNumber) (NMap [(''b'', NNumber 1), (''a'', NNumber 2)])) =
     Inr (MapIt \<lparr>m_ety = TNumber, m_vals = [(''b'', NNumber 1), (''a'', NNumber 2)],
                 m_keys = [''a'', ''b''], m_idx = - 1\<rparr>) \<and>
   pull sample_set (Suc (Suc (Suc 0)))
     (MapIt \<lparr>m_ety = TNumber, m_vals = [(''b'', NNumber 1), (''a'', NNumber 2)],
             m_keys = [''a'', ''b''], m_idx = - 1\<rparr>) =
     Inr ([Some (Value TString (NString ''a''), Value TNumber (NNumber 2)),
           Some (Value TString (NString ''b''), Value TNumber (NNumber 1)),
           None],
          MapIt \<lparr>m_ety = TNumber, m_vals = [(''b'', NNumber 1), (''a'', NNumber 2)],
                 m_keys = [''a'', ''b''], m_idx = 2\<rparr>) \<and>
   sort (map fst [(''a'', NNumber 2 :: int list native), (''b'', NNumber 1)]) = [''a'', ''b'']"
  using map_keys_in_sorted_order
    [of "[(''b'', NNumber 1), (''a'', NNumber 2)]" sample_set TNumber]
  by (simp add: map_index_def del: pull.simps)

section \<open>The factory: dispatch and faults\<close>

lemma elementIterator_set:
  "elementIterator pkg (Value (TSet ety) (NSet s)) =
     Inr (SetIt \<lparr>s_ety = ety, s_setIt = Set_Iterator pkg s\<rparr>)"
  by (simp add: elementIterator_def and_then_simps assert_set_def)

lemma elementIterator_non_collection:
  "\<not> is_collection ty \<Longrightarrow> elementIterator pkg (Value ty x) = Inl NonCollection"
  by (simp add: elementIterator_def is_collection_def)

lemma elementIterator_well_formed:
  "shape_matches ty x \<Longrightarrow>
   \<exists>it. elementIterator pkg (Value ty x) = Inr it \<and> kind_matches ty it"
  by (cases ty; cases x)
    (simp_all add: elementIterator_list elementIterator_map elementIterator_set
      elementIterator_tuple)

lemma elementIterator_ill_formed:
  "is_collection ty \<Longrightarrow> \<not> shape_matches ty x \<Longrightarrow>
   elementIterator pkg (Value ty x) = Inl TypeAssertion"
  by (cases ty; cases x)
    (simp_all add: is_collection_def elementIterator_def and_then_simps assert_slice_def
      assert_map_def assert_set_def)

text \<open>
  C3. For a value whose type is none of list, map, set and tuple (a number, an object,
  \<dots>), \<^verbatim>\<open>elementIterator\<close> panics at construction and no iterator object comes to
  exist. For a value of one of the four kinds (a value: its payload has the shape of its
  type) it returns a newly allocated iterator of the matching concrete kind.
\<close>

theorem factory_dispatch:
  "(\<not> is_collection (val_ty val) \<longrightarrow>
      elementIterator pkg val = Inl NonCollection \<and>
      new_elementIterator pkg val h = Inl NonCollection) \<and>
   (shape_matches (val_ty val) (val_v val) \<longrightarrow>
      (\<exists>it. elementIterator pkg val = Inr it \<and> kind_matches (val_ty val) it \<and>
            new_elementIterator pkg val h = Inr (length h, h @ [it])))"
proof (cases val)
  case (Value ty x)
  show ?thesis
    using elementIterator_non_collection [of ty pkg x] elementIterator_well_formed [of ty x pkg]
    by (auto simp: Value new_elementIterator_def and_then_simps)
qed

theorem factory_dispatch_witness:
  "\<not> is_collection (val_ty (Value TNumber (NNumber 5 :: int list native))) \<and>
   elementIterator sample_set (Value TNumber (NNumber 5)) = Inl NonCollection \<and>
   new_elementIterator sample_set (Value TNumber (NNumber 5)) [] = Inl NonCollection \<and>
   \<not> is_collection (val_ty (Value (TObject [(''a'', TNumber)]) (NMap [(''a'', NNumber 5 :: int list native)]))) \<and>
   elementIterator sample_set (Value (TObject [(''a'', TNumber)]) (NMap [(''a'', NNumber 5)])) =
     Inl NonCollection \<and>
   shape_matches (val_ty (Value (TSet TNumber) (NSet [1, 2, 3 :: int])))
     (val_v (Value (TSet TNumber) (NSet [1, 2, 3 :: int]))) \<and>
   (\<exists>it. elementIterator sample_set (Value (TSet TNumber) (NSet [1, 2, 3])) = Inr it \<and>
      kind_matches (val_ty (Value (TSet TNumber) (NSet [1, 2, 3 :: int]))) it \<and>
      new_elementIterator sample_set (Value (TSet TNumber) (NSet [1, 2, 3])) [] = Inr (0, [it]))"
  using factory_dispatch [of "Value TNumber (NNumber 5)" sample_set "[]"]
    factory_dispatch [of "Value (TObject [(''a'', TNumber)]) (NMap [(''a'', NNumber 5)])" sample_set "[]"]
    factory_dispatch [of "Value (TSet TNumber) (NSet [1, 2, 3])" sample_set "[]"]
  by (simp add: is_collection_def)

text \<open>
  C7. For a value whose declared type is list, map, set or tuple and whose payload does
  not have the shape of that kind (a slice for list and tuple, a string-keyed map for
  map, a set of the set package for set), \<^verbatim>\<open>elementIterator\<close> panics at construction, on
  the type assertion, and no iterator object comes to exist.
\<close>

theorem representation_mismatch_faults:
  "is_collection (val_ty val) \<Longrightarrow> \<not> shape_matches (val_ty val) (val_v val) \<Longrightarrow>
   elementIterator pkg val = Inl TypeAssertion \<and>
   new_elementIterator pkg val h = Inl TypeAssertion"
  by (cases val) (simp add: elementIterator_ill_formed new_elementIterator_def and_then_simps)

theorem representation_mismatch_faults_witness:
  "is_collection (val_ty (Value (TList TNumber) (NNumber 5 :: int list native))) \<and>
   \<not> shape_matches (val_ty (Value (TList TNumber) (NNumber 5 :: int list native)))
      (val_v (Value (TList TNumber) (NNumber 5 :: int list native))) \<and>
   elementIterator sample_set (Value (TList TNumber) (NNumber 5)) = Inl TypeAssertion \<and>
   new_elementIterator sample_set (Value (TList TNumber) (NNumber 5)) [] = Inl TypeAssertion \<and>
   elementIterator sample_set (Value (TMap TNumber) (NSlice [NNumber 5])) = Inl TypeAssertion \<and>
   elementIterator sample_set (Value (TSet TNumber) NNil) = Inl TypeAssertion \<and>
   elementIterator sample_set (Value (TTuple [TNumber]) (NMap [(''a'', NNumber 5)])) =
     Inl TypeAssertion"
  using representation_mismatch_faults [of "Value (TList TNumber) (NNumber 5)" sample_set "[]"]
    representation_mismatch_faults [of "Value (TMap TNumber) (NSlice [NNumber 5])" sample_set "[]"]
    representation_mismatch_faults [of "Value (TSet TNumber) NNil" sample_set "[]"]
    representation_mismatch_faults [of "Value (TTuple [TNumber]) (NMap [(''a'', NNumber 5)])" sample_set "[]"]
  by (simp add: is_collection_def)

section \<open>Sets: delegation to the set package's cursor\<close>

lemma Next_set:
  "Next pkg (SetIt \<lparr>s_ety = ety, s_setIt = c\<rparr>) =
     (case Iterator_Next pkg c of
        Inl e \<Rightarrow> Inl e
      | Inr (b, c') \<Rightarrow> Inr (b, SetIt \<lparr>s_ety = ety, s_setIt = c'\<rparr>))"
  by (simp add: setElementIterator_Next_def and_then_def split: sum.splits prod.splits)

lemma Element_set:
  "Element pkg (SetIt \<lparr>s_ety = ety, s_setIt = c\<rparr>) =
     (case Iterator_Value pkg c of
        Inl e \<Rightarrow> Inl e
      | Inr (x, c') \<Rightarrow> Inr ((Value ety x, Value ety x), SetIt \<lparr>s_ety = ety, s_setIt = c'\<rparr>))"
  by (simp add: setElementIterator_Element_def and_then_def Let_def split: sum.splits prod.splits)

lemma pull_set:
  "pull pkg k (SetIt \<lparr>s_ety = ety, s_setIt = c\<rparr>) =
     (case cursor_pull pkg k c of
        Inl e \<Rightarrow> Inl e
      | Inr (xs, c') \<Rightarrow>
          Inr (map (map_option (\<lambda>x. (Value ety x, Value ety x))) xs,
               SetIt \<lparr>s_ety = ety, s_setIt = c'\<rparr>))"
proof (induction k arbitrary: c)
  case 0
  show ?case by simp
next
  case (Suc k)
  show ?case
  proof (cases "Iterator_Next pkg c")
    case (Inl e)
    then show ?thesis
      by (simp add: Next_set and_then_simps del: Next.simps)
  next
    case (Inr bc)
    obtain b c1 where n: "Iterator_Next pkg c = Inr (b, c1)"
      using Inr by (cases bc) simp
    show ?thesis
    proof (cases b)
      case False
      then show ?thesis
        using n Suc [of c1]
        by (simp add: Next_set and_then_def del: Next.simps split: sum.splits)
    next
      case True
      show ?thesis
      proof (cases "Iterator_Value pkg c1")
        case (Inl e)
        then show ?thesis
          using n True
          by (simp add: Next_set Element_set and_then_simps del: Next.simps Element.simps)
      next
        case (Inr xc)
        obtain x c2 where v: "Iterator_Value pkg c1 = Inr (x, c2)"
          using Inr by (cases xc) simp
        show ?thesis
          using n True v Suc [of c2]
          by (simp add: Next_set Element_set and_then_def del: Next.simps Element.simps
              split: sum.splits)
      qed
    qed
  qed
qed

text \<open>
  C6. For a set-typed value the iterator wraps the cursor the set package makes for the
  set. \<^verbatim>\<open>Next\<close> is the cursor's \<^verbatim>\<open>Next\<close> and nothing else. \<^verbatim>\<open>Element\<close> calls the cursor's
  \<^verbatim>\<open>Value\<close> once (the cursor is left as that one call leaves it) and returns the element
  read, with the set's element type, as the key and as the value of the pair. Driving
  the iterator therefore yields the elements the cursor alone yields, in the cursor's
  order and as often as the cursor yields them, each as an identical pair.
\<close>

theorem set_iterator_delegates:
  "elementIterator pkg (Value (TSet ety) (NSet s)) =
     Inr (SetIt \<lparr>s_ety = ety, s_setIt = Set_Iterator pkg s\<rparr>) \<and>
   Next pkg (SetIt \<lparr>s_ety = ety, s_setIt = c\<rparr>) =
     (case Iterator_Next pkg c of
        Inl e \<Rightarrow> Inl e
      | Inr (b, c') \<Rightarrow> Inr (b, SetIt \<lparr>s_ety = ety, s_setIt = c'\<rparr>)) \<and>
   Element pkg (SetIt \<lparr>s_ety = ety, s_setIt = c\<rparr>) =
     (case Iterator_Value pkg c of
        Inl e \<Rightarrow> Inl e
      | Inr (x, c') \<Rightarrow> Inr ((Value ety x, Value ety x), SetIt \<lparr>s_ety = ety, s_setIt = c'\<rparr>)) \<and>
   pull pkg k (SetIt \<lparr>s_ety = ety, s_setIt = c\<rparr>) =
     (case cursor_pull pkg k c of
        Inl e \<Rightarrow> Inl e
      | Inr (xs, c') \<Rightarrow>
          Inr (map (map_option (\<lambda>x. (Value ety x, Value ety x))) xs,
               SetIt \<lparr>s_ety = ety, s_setIt = c'\<rparr>))"
  by (simp only: elementIterator_set Next_set Element_set pull_set simp_thms)

lemma sample_cursor_pull:
  "cursor_pull sample_set (Suc (Suc (Suc (Suc 0)))) ([1, 2, 3], None, 0) =
     Inr ([Some (NNumber 1), Some (NNumber 2), Some (NNumber 3), None], ([], None, 3))"
  by (simp add: sample_set_def and_then_simps)

theorem set_iterator_delegates_witness:
  "elementIterator sample_set (Value (TSet TNumber) (NSet [1, 2, 3])) =
     Inr (SetIt \<lparr>s_ety = TNumber, s_setIt = ([1, 2, 3], None, 0)\<rparr>) \<and>
   Next sample_set (SetIt \<lparr>s_ety = TNumber, s_setIt = ([1, 2, 3], None, 0)\<rparr>) =
     Inr (True, SetIt \<lparr>s_ety = TNumber, s_setIt = ([2, 3], Some 1, 0)\<rparr>) \<and>
   Element sample_set (SetIt \<lparr>s_ety = TNumber, s_setIt = ([2, 3], Some 1, 0)\<rparr>) =
     Inr ((Value TNumber (NNumber 1), Value TNumber (NNumber 1)),
          SetIt \<lparr>s_ety = TNumber, s_setIt = ([2, 3], Some 1, 1)\<rparr>) \<and>
   pull sample_set (Suc (Suc (Suc (Suc 0)))) (SetIt \<lparr>s_ety = TNumber, s_setIt = ([1, 2, 3], None, 0)\<rparr>) =
     Inr ([Some (Value TNumber (NNumber 1), Value TNumber (NNumber 1)),
           Some (Value TNumber (NNumber 2), Value TNumber (NNumber 2)),
           Some (Value TNumber (NNumber 3), Value TNumber (NNumber 3)),
           None],
          SetIt \<lparr>s_ety = TNumber, s_setIt = ([], None, 3)\<rparr>)"
proof -
  have v: "Set_Iterator sample_set [1, 2, 3] = ([1, 2, 3], None, 0)"
    "Iterator_Next sample_set ([1, 2, 3], None, 0) = Inr (True, ([2, 3], Some 1, 0))"
    "Iterator_Value sample_set ([2, 3], Some 1, 0) = Inr (NNumber 1, ([2, 3], Some 1, 1))"
    by (simp_all add: sample_set_def)
  show ?thesis
    using set_iterator_delegates [of sample_set TNumber "[1, 2, 3]" "([1, 2, 3], None, 0)"
        "Suc (Suc (Suc (Suc 0)))"]
      set_iterator_delegates [of sample_set TNumber "[1, 2, 3]" "([2, 3], Some 1, 0)" 0]
    by (simp add: v sample_cursor_pull del: pull.simps cursor_pull.simps)
qed

section \<open>Empty collections\<close>

text \<open>
  C8. The first \<^verbatim>\<open>Next\<close> on the iterator of an empty list, an empty map or an empty tuple
  returns false. The iterator of a set passes the first \<^verbatim>\<open>Next\<close> of the set package's
  cursor on: for a set that is empty (its cursor has no first element) it returns false.
\<close>

theorem empty_collection_first_Next:
  "Next pkg (ListIt \<lparr>l_ety = ety, l_vals = [], l_idx = - 1\<rparr>) =
     Inr (False, ListIt \<lparr>l_ety = ety, l_vals = [], l_idx = 0\<rparr>) \<and>
   elementIterator pkg (Value (TList ety) (NSlice [])) =
     Inr (ListIt \<lparr>l_ety = ety, l_vals = [], l_idx = - 1\<rparr>) \<and>
   Next pkg (MapIt \<lparr>m_ety = ety, m_vals = [], m_keys = [], m_idx = - 1\<rparr>) =
     Inr (False, MapIt \<lparr>m_ety = ety, m_vals = [], m_keys = [], m_idx = 0\<rparr>) \<and>
   elementIterator pkg (Value (TMap ety) (NMap [])) =
     Inr (MapIt \<lparr>m_ety = ety, m_vals = [], m_keys = [], m_idx = - 1\<rparr>) \<and>
   Next pkg (TupleIt \<lparr>t_etys = [], t_vals = [], t_idx = - 1\<rparr>) =
     Inr (False, TupleIt \<lparr>t_etys = [], t_vals = [], t_idx = 0\<rparr>) \<and>
   elementIterator pkg (Value (TTuple []) (NSlice [])) =
     Inr (TupleIt \<lparr>t_etys = [], t_vals = [], t_idx = - 1\<rparr>) \<and>
   elementIterator pkg (Value (TSet ety) (NSet s)) =
     Inr (SetIt \<lparr>s_ety = ety, s_setIt = Set_Iterator pkg s\<rparr>) \<and>
   (Iterator_Next pkg (Set_Iterator pkg s) = Inr (False, c) \<longrightarrow>
    Next pkg (SetIt \<lparr>s_ety = ety, s_setIt = Set_Iterator pkg s\<rparr>) =
      Inr (False, SetIt \<lparr>s_ety = ety, s_setIt = c\<rparr>))"
  by (simp add: elementIterator_list elementIterator_map elementIterator_tuple
      elementIterator_set listElementIterator_Next_def mapElementIterator_Next_def
      tupleElementIterator_Next_def setElementIterator_Next_def and_then_simps)

theorem empty_collection_first_Next_witness:
  "Next sample_set (ListIt \<lparr>l_ety = TNumber, l_vals = [], l_idx = - 1\<rparr>) =
     Inr (False, ListIt \<lparr>l_ety = TNumber, l_vals = [], l_idx = 0\<rparr>) \<and>
   Iterator_Next sample_set (Set_Iterator sample_set []) = Inr (False, ([], None, 0)) \<and>
   elementIterator sample_set (Value (TSet TNumber) (NSet [])) =
     Inr (SetIt \<lparr>s_ety = TNumber, s_setIt = Set_Iterator sample_set []\<rparr>) \<and>
   Next sample_set (SetIt \<lparr>s_ety = TNumber, s_setIt = Set_Iterator sample_set []\<rparr>) =
     Inr (False, SetIt \<lparr>s_ety = TNumber, s_setIt = ([], None, 0)\<rparr>)"
proof -
  have c: "Iterator_Next sample_set (Set_Iterator sample_set []) = Inr (False, ([], None, 0))"
    by (simp add: sample_set_def)
  show ?thesis
    using empty_collection_first_Next [of sample_set TNumber "[]" "([], None, 0)"] c
    by (simp del: Next.simps)
qed

section \<open>Element outside the contract\<close>

lemma Next_false_out_of_range:
  assumes "indexed it" "Next pkg it = Inr (False, it')"
  shows "indexed it' \<and> int (extent it') \<le> sint (position it')"
  using assms by (auto simp: Next_indexed)

lemma elementIterator_fresh:
  assumes "elementIterator pkg val = Inr it" "indexed it"
  shows "position it = - 1"
proof (cases val)
  case (Value ty x)
  show ?thesis
    using assms unfolding Value
    by (cases ty; cases x)
      (auto simp: elementIterator_def and_then_simps assert_slice_def assert_map_def
        assert_set_def)
qed

lemma Element_at_out_of_range:
  assumes "r < length h" and "indexed (h ! r)"
    and "\<not> (0 \<le> sint (position (h ! r)) \<and> sint (position (h ! r)) < int (extent (h ! r)))"
  shows "Element_at pkg r h = (Inl IndexOutOfRange, h)"
  using assms by (simp add: Element_at_def Element_out_of_range)

lemma new_elementIterator_cell:
  assumes "new_elementIterator pkg val h = Inr (r, h1)"
  shows "r = length h \<and> length h1 = Suc (length h) \<and> elementIterator pkg val = Inr (h1 ! r) \<and>
         take (length h) h1 = h"
  using assms by (cases "elementIterator pkg val") (auto simp: new_elementIterator_def and_then_simps)

lemma Next_at_cell:
  assumes "r < length h" "indexed (h ! r)"
  shows "Next_at pkg r h =
     (Inr (sint (position (h ! r) + 1) < int (extent (h ! r))),
      h[r := at_position (position (h ! r) + 1) (h ! r)])"
  using assms by (simp add: Next_at_def Next_indexed)

text \<open>
  C10. On a list, map or tuple iterator, \<^verbatim>\<open>Element\<close> called before any \<^verbatim>\<open>Next\<close> (the
  index is still \<open>-1\<close>), or right after a \<^verbatim>\<open>Next\<close> that returned false (the index is
  at or past the length), indexes the element sequence or the key sequence out of range
  and panics. The call changes nothing: the heap, and with it the iterator and the
  sequence it shares with the source value, is as before.
\<close>

theorem Element_outside_contract_faults:
  "(new_elementIterator pkg val h = Inr (r, h1) \<and> indexed (h1 ! r) \<longrightarrow>
      position (h1 ! r) = - 1 \<and> Element_at pkg r h1 = (Inl IndexOutOfRange, h1)) \<and>
   (r < length h' \<and> indexed (h' ! r) \<and> Next_at pkg r h' = (Inr False, h2) \<longrightarrow>
      int (extent (h2 ! r)) \<le> sint (position (h2 ! r)) \<and>
      Element_at pkg r h2 = (Inl IndexOutOfRange, h2))"
proof (intro conjI impI)
  assume a: "new_elementIterator pkg val h = Inr (r, h1) \<and> indexed (h1 ! r)"
  then have c: "r < length h1" "elementIterator pkg val = Inr (h1 ! r)"
    using new_elementIterator_cell [of pkg val h r h1] by simp_all
  then show p: "position (h1 ! r) = - 1"
    using a elementIterator_fresh by blast
  show "Element_at pkg r h1 = (Inl IndexOutOfRange, h1)"
    using a c p by (intro Element_at_out_of_range) simp_all
next
  assume a: "r < length h' \<and> indexed (h' ! r) \<and> Next_at pkg r h' = (Inr False, h2)"
  then have h2: "h2 = h'[r := at_position (position (h' ! r) + 1) (h' ! r)]"
    and b: "\<not> sint (position (h' ! r) + 1) < int (extent (h' ! r))"
    using Next_at_cell [of r h' pkg] by simp_all
  show p: "int (extent (h2 ! r)) \<le> sint (position (h2 ! r))"
    using a b by (simp add: h2)
  show "Element_at pkg r h2 = (Inl IndexOutOfRange, h2)"
    using a p by (intro Element_at_out_of_range) (simp_all add: h2)
qed

theorem Element_outside_contract_faults_witness:
  "new_elementIterator sample_set (Value (TList TString) (NSlice [NString ''x''])) [] =
     Inr (0, [ListIt \<lparr>l_ety = TString, l_vals = [NString ''x''], l_idx = - 1\<rparr>]) \<and>
   indexed ([ListIt \<lparr>l_ety = TString, l_vals = [NString ''x''], l_idx = - 1\<rparr>
             :: (int list, int list \<times> int option \<times> nat) ElementIterator] ! 0) \<and>
   Element_at sample_set 0 [ListIt \<lparr>l_ety = TString, l_vals = [NString ''x''], l_idx = - 1\<rparr>] =
     (Inl IndexOutOfRange, [ListIt \<lparr>l_ety = TString, l_vals = [NString ''x''], l_idx = - 1\<rparr>]) \<and>
   Next_at sample_set 0 [ListIt \<lparr>l_ety = TString, l_vals = [NString ''x''], l_idx = 0\<rparr>] =
     (Inr False, [ListIt \<lparr>l_ety = TString, l_vals = [NString ''x''], l_idx = 1\<rparr>]) \<and>
   Element_at sample_set 0 [ListIt \<lparr>l_ety = TString, l_vals = [NString ''x''], l_idx = 1\<rparr>] =
     (Inl IndexOutOfRange, [ListIt \<lparr>l_ety = TString, l_vals = [NString ''x''], l_idx = 1\<rparr>])"
proof -
  have n: "new_elementIterator sample_set (Value (TList TString) (NSlice [NString ''x''])) [] =
     Inr (0, [ListIt \<lparr>l_ety = TString, l_vals = [NString ''x''], l_idx = - 1\<rparr>])"
    by (simp add: new_elementIterator_def elementIterator_list and_then_simps)
  have m: "Next_at sample_set 0 [ListIt \<lparr>l_ety = TString, l_vals = [NString ''x''], l_idx = 0\<rparr>] =
     (Inr False, [ListIt \<lparr>l_ety = TString, l_vals = [NString ''x''], l_idx = 1\<rparr>])"
    by (simp add: Next_at_def listElementIterator_Next_def)
  show ?thesis
    using Element_outside_contract_faults
        [of sample_set "Value (TList TString) (NSlice [NString ''x''])" "[]" 0
          "[ListIt \<lparr>l_ety = TString, l_vals = [NString ''x''], l_idx = - 1\<rparr>]"
          "[ListIt \<lparr>l_ety = TString, l_vals = [NString ''x''], l_idx = 0\<rparr>]"
          "[ListIt \<lparr>l_ety = TString, l_vals = [NString ''x''], l_idx = 1\<rparr>]"]
      n m
    by simp
qed

section \<open>After exhaustion\<close>

lemma Next_wraps:
  assumes "indexed it" "position it = 2 ^ 63 - 1"
  shows "Next pkg it = Inr (True, at_position (- (2 ^ 63)) it)"
proof -
  have w: "position it + 1 = - (2 ^ 63)"
    unfolding assms(2) by simp
  have "sint (- (2 ^ 63) :: 64 word) < int (extent it)"
    by simp
  then show ?thesis
    using assms(1) by (simp only: Next_indexed w simp_thms)
qed

text \<open>
  C4, as the code has it. On a list, map or tuple iterator, once \<^verbatim>\<open>Next\<close> has returned
  false with the index at \<open>i\<close>, each of the next \<open>2^63 - 1 - i\<close> calls of \<^verbatim>\<open>Next\<close> returns
  false; every one of them adds one to the index. The index is a 64-bit \<^verbatim>\<open>int\<close>: the call
  after those wraps it from \<open>2^63 - 1\<close> to \<open>-2^63\<close>, which is below every length, and
  returns true.
\<close>

theorem Next_after_exhaustion:
  assumes "indexed it" and "Next pkg it = Inr (False, it1)"
    and "sint (position it1) + int k < 2 ^ 63"
  shows "pull pkg k it1 = Inr (replicate k None, at_position (position it1 + word_of_nat k) it1) \<and>
         (sint (position it1) + int k = 2 ^ 63 - 1 \<longrightarrow>
            Next pkg (at_position (position it1 + word_of_nat k) it1) =
              Inr (True, at_position (- (2 ^ 63)) it1))"
proof (intro conjI impI)
  have e: "indexed it1" "int (extent it1) \<le> sint (position it1)"
    using Next_false_out_of_range [OF assms(1,2)] by simp_all
  then show "pull pkg k it1 = Inr (replicate k None, at_position (position it1 + word_of_nat k) it1)"
    using assms(3) by (intro pull_exhausted) simp_all
  assume w: "sint (position it1) + int k = 2 ^ 63 - 1"
  have s: "sint (position it1 + word_of_nat k) = 2 ^ 63 - 1"
    using sint_plus_nat [of "position it1" k] w sint_ge [of "position it1"] by simp
  have "position it1 + word_of_nat k = (2 ^ 63 - 1 :: 64 word)"
  proof -
    have "word_of_int (sint (position it1 + word_of_nat k)) = (word_of_int (2 ^ 63 - 1) :: 64 word)"
      by (simp only: s)
    then show ?thesis by simp
  qed
  then show "Next pkg (at_position (position it1 + word_of_nat k) it1) =
              Inr (True, at_position (- (2 ^ 63)) it1)"
    using e(1) Next_wraps [of "at_position (position it1 + word_of_nat k) it1" pkg] by simp
qed

theorem Next_after_exhaustion_witness:
  "indexed (ListIt \<lparr>l_ety = TNumber, l_vals = [], l_idx = - 1\<rparr>
      :: (int list, int list \<times> int option \<times> nat) ElementIterator) \<and>
   Next sample_set (ListIt \<lparr>l_ety = TNumber, l_vals = [], l_idx = - 1\<rparr>) =
     Inr (False, ListIt \<lparr>l_ety = TNumber, l_vals = [], l_idx = 0\<rparr>) \<and>
   pull sample_set (Suc (Suc (Suc 0))) (ListIt \<lparr>l_ety = TNumber, l_vals = [], l_idx = 0\<rparr>) =
     Inr ([None, None, None], ListIt \<lparr>l_ety = TNumber, l_vals = [], l_idx = 3\<rparr>)"
proof -
  have n: "Next sample_set (ListIt \<lparr>l_ety = TNumber, l_vals = [], l_idx = - 1\<rparr>) =
     Inr (False, ListIt \<lparr>l_ety = TNumber, l_vals = [], l_idx = 0\<rparr>)"
    by (simp add: listElementIterator_Next_def)
  show ?thesis
    using Next_after_exhaustion [OF _ n, of "Suc (Suc (Suc 0))"] n
    by (simp del: pull.simps Next.simps)
qed

text \<open>
  The claim as stated, "every subsequent \<^verbatim>\<open>Next\<close> returns false, for any number of further
  calls", fails on the iterator of the empty list: its first \<^verbatim>\<open>Next\<close> returns false, so do
  the \<open>2^63 - 1\<close> calls after it, and the call after those returns true.
\<close>

theorem Next_after_exhaustion_counterexample:
  "Next sample_set (ListIt \<lparr>l_ety = TNumber, l_vals = [], l_idx = - 1\<rparr>) =
     Inr (False, ListIt \<lparr>l_ety = TNumber, l_vals = [], l_idx = 0\<rparr>) \<and>
   pull sample_set (2 ^ 63 - 1) (ListIt \<lparr>l_ety = TNumber, l_vals = [], l_idx = 0\<rparr>) =
     Inr (replicate (2 ^ 63 - 1) None,
          ListIt \<lparr>l_ety = TNumber, l_vals = [], l_idx = 2 ^ 63 - 1\<rparr>) \<and>
   Next sample_set (ListIt \<lparr>l_ety = TNumber, l_vals = [], l_idx = 2 ^ 63 - 1\<rparr>) =
     Inr (True, ListIt \<lparr>l_ety = TNumber, l_vals = [], l_idx = - (2 ^ 63)\<rparr>)"
proof (intro conjI)
  let ?it = "ListIt \<lparr>l_ety = TNumber, l_vals = [], l_idx = 0\<rparr>
      :: (int list, int list \<times> int option \<times> nat) ElementIterator"
  show "Next sample_set (ListIt \<lparr>l_ety = TNumber, l_vals = [], l_idx = - 1\<rparr>) = Inr (False, ?it)"
    by (simp add: listElementIterator_Next_def)
  define k :: nat where "k = 2 ^ 63 - 1"
  have k: "int k < 2 ^ 63" "(word_of_nat k :: 64 word) = 2 ^ 63 - 1"
    by (simp_all add: k_def)
  have "pull sample_set k ?it =
      Inr (replicate k None, at_position (position ?it + word_of_nat k) ?it)"
    using k(1) by (intro pull_exhausted) simp_all
  also have "at_position (position ?it + word_of_nat k) ?it =
      ListIt \<lparr>l_ety = TNumber, l_vals = [], l_idx = 2 ^ 63 - 1\<rparr>"
    by (simp add: k(2))
  finally show "pull sample_set (2 ^ 63 - 1) ?it =
     Inr (replicate (2 ^ 63 - 1) None,
          ListIt \<lparr>l_ety = TNumber, l_vals = [], l_idx = 2 ^ 63 - 1\<rparr>)"
    unfolding k_def .
  show "Next sample_set (ListIt \<lparr>l_ety = TNumber, l_vals = [], l_idx = 2 ^ 63 - 1\<rparr>) =
     Inr (True, ListIt \<lparr>l_ety = TNumber, l_vals = [], l_idx = - (2 ^ 63)\<rparr>)"
    by (simp add: listElementIterator_Next_def)
qed

section \<open>The cursor position\<close>

lemma Element_indexed_state:
  assumes "indexed it" "Element pkg it = Inr (kv, it')"
  shows "it' = it"
  using assms by (cases it) (auto simp: and_then_def split: sum.splits)

lemma Element_at_indexed:
  assumes "r < length h" "indexed (h ! r)"
  shows "snd (Element_at pkg r h) = h"
proof (cases "Element pkg (h ! r)")
  case (Inl e)
  then show ?thesis using assms(1) by (simp add: Element_at_def)
next
  case (Inr p)
  obtain kv it' where p: "p = (kv, it')" by (cases p)
  then have "it' = h ! r"
    using Element_indexed_state [OF assms(2)] Inr by simp
  then show ?thesis
    using assms(1) Inr p by (simp add: Element_at_def)
qed

lemma calls_at_Next_only:
  assumes "r < length h" "indexed (h ! r)"
  shows "snd (calls_at pkg r (replicate k CallNext) h) =
    h[r := at_position (position (h ! r) + word_of_nat k) (h ! r)]"
  using assms
proof (induction k arbitrary: h)
  case 0
  then show ?case by simp
next
  case (Suc k)
  let ?h1 = "h[r := at_position (position (h ! r) + 1) (h ! r)]"
  have "snd (calls_at pkg r (replicate k CallNext) ?h1) =
      ?h1[r := at_position (position (?h1 ! r) + word_of_nat k) (?h1 ! r)]"
    using Suc.prems by (intro Suc.IH) simp_all
  then show ?case
    using Suc.prems by (auto simp add: Next_at_cell add.assoc split: prod.splits)
qed

lemma calls_at_exhausted:
  assumes "r < length h" "indexed (h ! r)" "int (extent (h ! r)) \<le> sint (position (h ! r))"
    and "sint (position (h ! r)) + int (count_list cs CallNext) < 2 ^ 63"
  shows "calls_at pkg r cs h =
    (map (\<lambda>c. case c of CallNext \<Rightarrow> NextReturned False | CallElement \<Rightarrow> Panicked IndexOutOfRange) cs,
     h[r := at_position (position (h ! r) + word_of_nat (count_list cs CallNext)) (h ! r)])"
  using assms
proof (induction cs arbitrary: h)
  case Nil
  then show ?case by simp
next
  case (Cons c cs)
  show ?case
  proof (cases c)
    case CallNext
    let ?h1 = "h[r := at_position (position (h ! r) + 1) (h ! r)]"
    have s: "sint (position (h ! r) + 1) = sint (position (h ! r)) + 1"
      using Cons.prems CallNext by (intro sint_plus_one) simp
    have n: "Next_at pkg r h = (Inr False, ?h1)"
      using Cons.prems by (simp add: Next_at_cell s)
    have "calls_at pkg r cs ?h1 =
      (map (\<lambda>c. case c of CallNext \<Rightarrow> NextReturned False | CallElement \<Rightarrow> Panicked IndexOutOfRange) cs,
       ?h1[r := at_position (position (?h1 ! r) + word_of_nat (count_list cs CallNext)) (?h1 ! r)])"
      using Cons.prems CallNext by (intro Cons.IH) (simp_all add: s)
    then show ?thesis
      using Cons.prems CallNext by (simp add: n add.assoc)
  next
    case CallElement
    have e: "Element_at pkg r h = (Inl IndexOutOfRange, h)"
      using Cons.prems by (intro Element_at_out_of_range) simp_all
    have "calls_at pkg r cs h =
      (map (\<lambda>c. case c of CallNext \<Rightarrow> NextReturned False | CallElement \<Rightarrow> Panicked IndexOutOfRange) cs,
       h[r := at_position (position (h ! r) + word_of_nat (count_list cs CallNext)) (h ! r)])"
      using Cons.prems CallElement by (intro Cons.IH) simp_all
    then show ?thesis
      using CallElement by (simp add: e)
  qed
qed

text \<open>
  C9, as the code has it. On a list, map or tuple iterator, \<^verbatim>\<open>Next\<close> adds one to the
  index, a 64-bit \<^verbatim>\<open>int\<close>: the index goes up by one on every call but the one at
  \<open>2^63 - 1\<close>, where it wraps to \<open>-2^63\<close>. \<^verbatim>\<open>Element\<close> never changes the index, nor
  anything else. An exhausted iterator (index \<open>i\<close> at or past the length) stays exhausted
  through every sequence of \<^verbatim>\<open>Next\<close> and \<^verbatim>\<open>Element\<close> calls with at most \<open>2^63 - 1 - i\<close> calls
  of \<^verbatim>\<open>Next\<close>: each \<^verbatim>\<open>Next\<close> in it returns false and each \<^verbatim>\<open>Element\<close> panics.
\<close>

theorem cursor_position_steps:
  assumes "r < length h" and "indexed (h ! r)"
  shows "Next_at pkg r h =
           (Inr (sint (position (h ! r) + 1) < int (extent (h ! r))),
            h[r := at_position (position (h ! r) + 1) (h ! r)]) \<and>
         (sint (position (h ! r)) < 2 ^ 63 - 1 \<longrightarrow>
            sint (position (h ! r) + 1) = sint (position (h ! r)) + 1) \<and>
         snd (Element_at pkg r h) = h \<and>
         (int (extent (h ! r)) \<le> sint (position (h ! r)) \<and>
          sint (position (h ! r)) + int (count_list cs CallNext) < 2 ^ 63 \<longrightarrow>
            calls_at pkg r cs h =
              (map (\<lambda>c. case c of CallNext \<Rightarrow> NextReturned False
                                  | CallElement \<Rightarrow> Panicked IndexOutOfRange) cs,
               h[r := at_position (position (h ! r) + word_of_nat (count_list cs CallNext)) (h ! r)]))"
  using assms
  by (intro conjI impI)
    (simp_all only: Next_at_cell sint_plus_one Element_at_indexed calls_at_exhausted)


theorem cursor_position_steps_witness:
  "(0 :: nat) < length [ListIt \<lparr>l_ety = TString, l_vals = [NString ''x''], l_idx = 1\<rparr>
      :: (int list, int list \<times> int option \<times> nat) ElementIterator] \<and>
   indexed ([ListIt \<lparr>l_ety = TString, l_vals = [NString ''x''], l_idx = 1\<rparr>
      :: (int list, int list \<times> int option \<times> nat) ElementIterator] ! 0) \<and>
   Next_at sample_set 0 [ListIt \<lparr>l_ety = TString, l_vals = [NString ''x''], l_idx = 1\<rparr>] =
     (Inr False, [ListIt \<lparr>l_ety = TString, l_vals = [NString ''x''], l_idx = 2\<rparr>]) \<and>
   sint (1 + 1 :: 64 word) = sint (1 :: 64 word) + 1 \<and>
   snd (Element_at sample_set 0 [ListIt \<lparr>l_ety = TString, l_vals = [NString ''x''], l_idx = 1\<rparr>]) =
     [ListIt \<lparr>l_ety = TString, l_vals = [NString ''x''], l_idx = 1\<rparr>] \<and>
   calls_at sample_set 0 [CallNext, CallElement, CallElement, CallNext]
       [ListIt \<lparr>l_ety = TString, l_vals = [NString ''x''], l_idx = 1\<rparr>] =
     ([NextReturned False, Panicked IndexOutOfRange, Panicked IndexOutOfRange, NextReturned False],
      [ListIt \<lparr>l_ety = TString, l_vals = [NString ''x''], l_idx = 3\<rparr>])"
  using cursor_position_steps
    [of 0 "[ListIt \<lparr>l_ety = TString, l_vals = [NString ''x''], l_idx = 1\<rparr>]" sample_set
      "[CallNext, CallElement, CallElement, CallNext]"]
  by (simp del: calls_at.simps)

text \<open>
  The claim as stated fails twice. The index does not increase on the \<^verbatim>\<open>Next\<close> call at
  \<open>2^63 - 1\<close>: it becomes \<open>-2^63\<close>. And exhaustion is not terminal: the iterator of a
  one-element list is exhausted at index 1 (\<^verbatim>\<open>Next\<close> at index 0 returned false); after
  \<open>2^64 - 2\<close> further calls of \<^verbatim>\<open>Next\<close> the index is \<open>-1\<close> again, and the next \<^verbatim>\<open>Next\<close>
  returns true and \<^verbatim>\<open>Element\<close> yields the element at place 0.
\<close>

theorem cursor_position_steps_counterexample:
  "Next_at sample_set 0 [ListIt \<lparr>l_ety = TString, l_vals = [NString ''x''], l_idx = 2 ^ 63 - 1\<rparr>] =
     (Inr True, [ListIt \<lparr>l_ety = TString, l_vals = [NString ''x''], l_idx = - (2 ^ 63)\<rparr>]) \<and>
   sint (- (2 ^ 63) :: 64 word) < sint (2 ^ 63 - 1 :: 64 word) \<and>
   Next_at sample_set 0 [ListIt \<lparr>l_ety = TString, l_vals = [NString ''x''], l_idx = 0\<rparr>] =
     (Inr False, [ListIt \<lparr>l_ety = TString, l_vals = [NString ''x''], l_idx = 1\<rparr>]) \<and>
   snd (calls_at sample_set 0 (replicate (2 ^ 64 - 2) CallNext)
          [ListIt \<lparr>l_ety = TString, l_vals = [NString ''x''], l_idx = 1\<rparr>]) =
     [ListIt \<lparr>l_ety = TString, l_vals = [NString ''x''], l_idx = - 1\<rparr>] \<and>
   calls_at sample_set 0 [CallNext, CallElement]
       [ListIt \<lparr>l_ety = TString, l_vals = [NString ''x''], l_idx = - 1\<rparr>] =
     ([NextReturned True,
       ElementReturned (Value TNumber (NNumber 0), Value TString (NString ''x''))],
      [ListIt \<lparr>l_ety = TString, l_vals = [NString ''x''], l_idx = 0\<rparr>])"
proof (intro conjI)
  let ?h = "[ListIt \<lparr>l_ety = TString, l_vals = [NString ''x''], l_idx = 1\<rparr>]
      :: (int list, int list \<times> int option \<times> nat) ElementIterator list"
  show "Next_at sample_set 0 [ListIt \<lparr>l_ety = TString, l_vals = [NString ''x''], l_idx = 2 ^ 63 - 1\<rparr>] =
     (Inr True, [ListIt \<lparr>l_ety = TString, l_vals = [NString ''x''], l_idx = - (2 ^ 63)\<rparr>])"
    by (simp add: Next_at_def listElementIterator_Next_def)
  show "sint (- (2 ^ 63) :: 64 word) < sint (2 ^ 63 - 1 :: 64 word)"
    by simp
  show "Next_at sample_set 0 [ListIt \<lparr>l_ety = TString, l_vals = [NString ''x''], l_idx = 0\<rparr>] =
     (Inr False, ?h)"
    by (simp add: Next_at_def listElementIterator_Next_def)
  define k :: nat where "k = 2 ^ 64 - 2"
  have k: "(1 :: 64 word) + word_of_nat k = - 1"
    by (simp add: k_def)
  have "snd (calls_at sample_set 0 (replicate k CallNext) ?h) =
      ?h[0 := at_position (position (?h ! 0) + word_of_nat k) (?h ! 0)]"
    by (rule calls_at_Next_only) simp_all
  also have "\<dots> = [ListIt \<lparr>l_ety = TString, l_vals = [NString ''x''], l_idx = - 1\<rparr>]"
    by (simp add: k)
  finally show "snd (calls_at sample_set 0 (replicate (2 ^ 64 - 2) CallNext) ?h) =
     [ListIt \<lparr>l_ety = TString, l_vals = [NString ''x''], l_idx = - 1\<rparr>]"
    unfolding k_def .
  show "calls_at sample_set 0 [CallNext, CallElement]
       [ListIt \<lparr>l_ety = TString, l_vals = [NString ''x''], l_idx = - 1\<rparr>] =
     ([NextReturned True,
       ElementReturned (Value TNumber (NNumber 0), Value TString (NString ''x''))],
      [ListIt \<lparr>l_ety = TString, l_vals = [NString ''x''], l_idx = 0\<rparr>])"
    by (simp add: Next_at_def Element_at_def listElementIterator_Next_def
        listElementIterator_Element_def index_def and_then_simps NumberIntVal_def)
qed

section \<open>Independent iterators over one value\<close>

lemma same_iterator_refl [simp]: "same_iterator a a"
  by (cases a) simp_all

lemma same_iterator_map:
  "same_iterator a b \<Longrightarrow> a \<noteq> b \<Longrightarrow>
   \<exists>x y. a = MapIt x \<and> b = MapIt y \<and> m_ety x = m_ety y \<and> m_keys x = m_keys y \<and>
     m_idx x = m_idx y \<and> same_entries (m_vals x) (m_vals y)"
  by (cases a; cases b) auto

lemma same_entries_map_index:
  "same_entries m m' \<Longrightarrow> map_index m = map_index m'"
  using storage_order_irrelevant(2) [of m' m] by (simp add: same_entries_def)

lemma same_entries_keys:
  "same_entries m m' \<Longrightarrow> sort (map fst m) = sort (map fst m')"
  by (simp add: same_entries_def sort_distinct_keys)

lemma Next_same:
  assumes "same_iterator a b"
  shows "rel_sum (=) (rel_prod (=) same_iterator) (Next pkg a) (Next pkg b)"
proof (cases "a = b")
  case True
  then show ?thesis by (simp add: sum.rel_refl prod.rel_refl)
next
  case False
  then obtain x y where "a = MapIt x" "b = MapIt y" "m_ety x = m_ety y" "m_keys x = m_keys y"
      "m_idx x = m_idx y" "same_entries (m_vals x) (m_vals y)"
    using same_iterator_map [OF assms] by blast
  then show ?thesis
    by (simp add: mapElementIterator_Next_def Let_def)
qed

lemma Element_same:
  assumes "same_iterator a b"
  shows "rel_sum (=) (rel_prod (=) same_iterator) (Element pkg a) (Element pkg b)"
proof (cases "a = b")
  case True
  then show ?thesis by (simp add: sum.rel_refl prod.rel_refl)
next
  case False
  then obtain x y where "a = MapIt x" "b = MapIt y" "m_ety x = m_ety y" "m_keys x = m_keys y"
      "m_idx x = m_idx y" "same_entries (m_vals x) (m_vals y)"
    using same_iterator_map [OF assms] by blast
  then show ?thesis
    by (cases "index (m_keys y) (m_idx y)")
      (simp_all add: mapElementIterator_Element_def and_then_simps same_entries_map_index)
qed

lemma elementIterator_same:
  assumes "same_value val val'"
  shows "rel_sum (=) same_iterator (elementIterator pkg val) (elementIterator pkg val')"
proof (cases "val = val'")
  case True
  then show ?thesis by (simp add: sum.rel_refl)
next
  case False
  then obtain ty m m' where v: "val = Value ty (NMap m)" "val' = Value ty (NMap m')"
      "same_entries m m'"
    using assms by (cases "(val, val')" rule: same_value.cases) auto
  show ?thesis
  proof (cases "IsMapType ty")
    case True
    then obtain ety where "ty = TMap ety" by (cases ty) simp_all
    then show ?thesis
      using v by (simp add: elementIterator_map same_entries_keys)
  next
    case False
    then show ?thesis
      unfolding v by (cases ty) (simp_all add: elementIterator_def and_then_simps assert_slice_def
        assert_set_def sum.rel_refl)
  qed
qed

lemma pull_same:
  "same_iterator a b \<Longrightarrow>
   rel_sum (=) (rel_prod (=) same_iterator) (pull pkg k a) (pull pkg k b)"
proof (induction k arbitrary: a b)
  case 0
  then show ?case by simp
next
  case (Suc k)
  note n = Next_same [OF Suc.prems, of pkg]
  show ?case
  proof (cases "Next pkg a")
    case (Inl e)
    then show ?thesis using n by (cases "Next pkg b") (simp_all add: and_then_simps)
  next
    case (Inr p)
    then obtain q where q: "Next pkg b = Inr q" using n by (cases "Next pkg b") simp_all
    obtain x a1 where p: "p = (x, a1)" by (cases p)
    obtain y b1 where q': "q = (y, b1)" by (cases q)
    have xy: "x = y" "same_iterator a1 b1" using n Inr q p q' by simp_all
    show ?thesis
    proof (cases x)
      case False
      then show ?thesis
        using Suc.IH [OF xy(2)] Inr q p q' xy(1)
        by (cases "pull pkg k a1"; cases "pull pkg k b1") (auto simp: and_then_simps)
    next
      case True
      note e = Element_same [OF xy(2), of pkg]
      show ?thesis
      proof (cases "Element pkg a1")
        case (Inl e')
        then show ?thesis
          using e Inr q p q' xy(1) True
          by (cases "Element pkg b1") (simp_all add: and_then_simps)
      next
        case (Inr u)
        then obtain w where w: "Element pkg b1 = Inr w"
          using e by (cases "Element pkg b1") simp_all
        obtain kv a2 where u: "u = (kv, a2)" by (cases u)
        obtain kv' b2 where w': "w = (kv', b2)" by (cases w)
        have kk: "kv = kv'" "same_iterator a2 b2" using e Inr w u w' by simp_all
        show ?thesis
          using Suc.IH [OF kk(2)] \<open>Next pkg a = Inr p\<close> q p q' xy(1) True Inr w u w' kk(1)
          by (cases "pull pkg k a2"; cases "pull pkg k b2") (auto simp: and_then_simps)
      qed
    qed
  qed
qed


lemma call_at_frame:
  "length (snd (call_at pkg r c h)) = length h"
  "r' \<noteq> r \<Longrightarrow> snd (call_at pkg r c h) ! r' = h ! r'"
  by (cases c; cases "Next pkg (h ! r)"; cases "Element pkg (h ! r)";
      auto simp: Next_at_def Element_at_def)+

lemma calls_at_frame:
  "length (snd (calls_at pkg r cs h)) = length h \<and>
   (r' \<noteq> r \<longrightarrow> snd (calls_at pkg r cs h) ! r' = h ! r')"
proof (induction cs arbitrary: h)
  case Nil
  show ?case by simp
next
  case (Cons c cs)
  show ?case
    using Cons [of "snd (call_at pkg r c h)"] call_at_frame(1) [of pkg r c h]
      call_at_frame(2) [of r' r pkg c h]
    by (auto split: prod.splits)
qed

lemma call_at_same:
  assumes "r < length h" "r' < length h'" "same_iterator (h ! r) (h' ! r')"
  shows "fst (call_at pkg r c h) = fst (call_at pkg r' c h') \<and>
         same_iterator (snd (call_at pkg r c h) ! r) (snd (call_at pkg r' c h') ! r')"
proof (cases c)
  case CallNext
  show ?thesis
    using Next_same [OF assms(3), of pkg] assms(1,2,3)
    by (cases "Next pkg (h ! r)"; cases "Next pkg (h' ! r')")
      (auto simp: CallNext Next_at_def)
next
  case CallElement
  show ?thesis
    using Element_same [OF assms(3), of pkg] assms(1,2,3)
    by (cases "Element pkg (h ! r)"; cases "Element pkg (h' ! r')")
      (auto simp: CallElement Element_at_def)
qed

lemma calls_at_same:
  assumes "r < length h" "r' < length h'" "same_iterator (h ! r) (h' ! r')"
  shows "fst (calls_at pkg r cs h) = fst (calls_at pkg r' cs h')"
  using assms
proof (induction cs arbitrary: h h')
  case Nil
  show ?case by simp
next
  case (Cons c cs)
  let ?h1 = "snd (call_at pkg r c h)" and ?h1' = "snd (call_at pkg r' c h')"
  have "fst (calls_at pkg r cs ?h1) = fst (calls_at pkg r' cs ?h1')"
    using Cons.prems call_at_same [of r h r' h' pkg c]
    by (intro Cons.IH) (simp_all add: call_at_frame)
  then show ?case
    using call_at_same [of r h r' h' pkg c] Cons.prems
    by (auto split: prod.splits)
qed

text \<open>
  C5. Two iterators requested by two calls of \<^verbatim>\<open>elementIterator\<close> on the same unchanged
  collection value (the second call may range over a map payload in another order) are
  two distinct objects. The same calls on either give the same outcomes, so driving
  each to exhaustion produces the same sequence of key and value pairs. Whatever calls
  are made on one leave the other object, and with it its position, as it was, and the
  outcomes of the calls then made on the other are those it would have given anyway.
\<close>

theorem independent_iterators:
  assumes "same_value val val'"
    and "new_elementIterator pkg val h = Inr (r1, h1)"
    and "new_elementIterator pkg val' h1 = Inr (r2, h2)"
  shows "r1 \<noteq> r2 \<and> r1 < length h2 \<and> r2 < length h2 \<and>
         same_iterator (h2 ! r1) (h2 ! r2) \<and>
         (\<forall>k. map_sum id fst (pull pkg k (h2 ! r1)) = map_sum id fst (pull pkg k (h2 ! r2))) \<and>
         (\<forall>cs. fst (calls_at pkg r1 cs h2) = fst (calls_at pkg r2 cs h2)) \<and>
         (\<forall>cs1 cs. snd (calls_at pkg r1 cs1 h2) ! r2 = h2 ! r2 \<and>
            fst (calls_at pkg r2 cs (snd (calls_at pkg r1 cs1 h2))) = fst (calls_at pkg r2 cs h2)) \<and>
         (\<forall>cs2 cs. snd (calls_at pkg r2 cs2 h2) ! r1 = h2 ! r1 \<and>
            fst (calls_at pkg r1 cs (snd (calls_at pkg r2 cs2 h2))) = fst (calls_at pkg r1 cs h2))"
proof -
  have c1: "r1 = length h" "length h1 = Suc (length h)" "elementIterator pkg val = Inr (h1 ! r1)"
    using new_elementIterator_cell [OF assms(2)] by simp_all
  have c2: "r2 = length h1" "length h2 = Suc (length h1)" "elementIterator pkg val' = Inr (h2 ! r2)"
    "take (length h1) h2 = h1"
    using new_elementIterator_cell [OF assms(3)] by simp_all
  have ne: "r1 \<noteq> r2" and lt: "r1 < length h2" "r2 < length h2"
    using c1 c2 by simp_all
  have "h2 ! r1 = take (length h1) h2 ! r1"
    using c1 by simp
  then have k: "h2 ! r1 = h1 ! r1"
    using c2(4) by simp
  have same: "same_iterator (h2 ! r1) (h2 ! r2)"
    using elementIterator_same [OF assms(1), of pkg] c1(3) c2(3) k by simp
  have p: "map_sum id fst (pull pkg k (h2 ! r1)) = map_sum id fst (pull pkg k (h2 ! r2))" for k
    using pull_same [OF same, of pkg k]
    by (cases "pull pkg k (h2 ! r1)"; cases "pull pkg k (h2 ! r2)") auto
  have q: "fst (calls_at pkg r1 cs h2) = fst (calls_at pkg r2 cs h2)" for cs
    using lt same by (rule calls_at_same)
  have f: "snd (calls_at pkg r cs1 h2) ! r' = h2 ! r' \<and>
      fst (calls_at pkg r' cs (snd (calls_at pkg r cs1 h2))) = fst (calls_at pkg r' cs h2)"
    if "r \<noteq> r'" "r' < length h2" for r r' cs1 cs
  proof
    show a: "snd (calls_at pkg r cs1 h2) ! r' = h2 ! r'"
      using that calls_at_frame [of pkg r cs1 h2 r'] by simp
    show "fst (calls_at pkg r' cs (snd (calls_at pkg r cs1 h2))) = fst (calls_at pkg r' cs h2)"
      using that calls_at_frame [of pkg r cs1 h2 r'] a
      by (intro calls_at_same) simp_all
  qed
  show ?thesis
    using ne lt same p q f [of r1 r2] f [of r2 r1] by simp
qed


theorem independent_iterators_witness:
  "same_value (Value (TMap TNumber) (NMap [(''b'', NNumber 1), (''a'', NNumber 2 :: int list native)]))
     (Value (TMap TNumber) (NMap [(''a'', NNumber 2), (''b'', NNumber 1)])) \<and>
   new_elementIterator sample_set
       (Value (TMap TNumber) (NMap [(''b'', NNumber 1), (''a'', NNumber 2)])) [] =
     Inr (0, [MapIt \<lparr>m_ety = TNumber, m_vals = [(''b'', NNumber 1), (''a'', NNumber 2)],
                     m_keys = [''a'', ''b''], m_idx = - 1\<rparr>]) \<and>
   new_elementIterator sample_set
       (Value (TMap TNumber) (NMap [(''a'', NNumber 2), (''b'', NNumber 1)]))
       [MapIt \<lparr>m_ety = TNumber, m_vals = [(''b'', NNumber 1), (''a'', NNumber 2)],
               m_keys = [''a'', ''b''], m_idx = - 1\<rparr>] =
     Inr (1, [MapIt \<lparr>m_ety = TNumber, m_vals = [(''b'', NNumber 1), (''a'', NNumber 2)],
                     m_keys = [''a'', ''b''], m_idx = - 1\<rparr>,
              MapIt \<lparr>m_ety = TNumber, m_vals = [(''a'', NNumber 2), (''b'', NNumber 1)],
                     m_keys = [''a'', ''b''], m_idx = - 1\<rparr>]) \<and>
   (0 :: nat) \<noteq> 1 \<and>
   fst (calls_at sample_set 0 [CallNext, CallElement]
          [MapIt \<lparr>m_ety = TNumber, m_vals = [(''b'', NNumber 1), (''a'', NNumber 2)],
                  m_keys = [''a'', ''b''], m_idx = - 1\<rparr>,
           MapIt \<lparr>m_ety = TNumber, m_vals = [(''a'', NNumber 2), (''b'', NNumber 1)],
                  m_keys = [''a'', ''b''], m_idx = - 1\<rparr>]) =
     [NextReturned True, ElementReturned (Value TString (NString ''a''), Value TNumber (NNumber 2))] \<and>
   fst (calls_at sample_set 1 [CallNext, CallElement]
          [MapIt \<lparr>m_ety = TNumber, m_vals = [(''b'', NNumber 1), (''a'', NNumber 2)],
                  m_keys = [''a'', ''b''], m_idx = - 1\<rparr>,
           MapIt \<lparr>m_ety = TNumber, m_vals = [(''a'', NNumber 2), (''b'', NNumber 1)],
                  m_keys = [''a'', ''b''], m_idx = - 1\<rparr>]) =
     [NextReturned True, ElementReturned (Value TString (NString ''a''), Value TNumber (NNumber 2))] \<and>
   snd (calls_at sample_set 0 [CallNext, CallElement]
          [MapIt \<lparr>m_ety = TNumber, m_vals = [(''b'', NNumber 1), (''a'', NNumber 2)],
                  m_keys = [''a'', ''b''], m_idx = - 1\<rparr>,
           MapIt \<lparr>m_ety = TNumber, m_vals = [(''a'', NNumber 2), (''b'', NNumber 1)],
                  m_keys = [''a'', ''b''], m_idx = - 1\<rparr>]) ! 1 =
     MapIt \<lparr>m_ety = TNumber, m_vals = [(''a'', NNumber 2), (''b'', NNumber 1)],
            m_keys = [''a'', ''b''], m_idx = - 1\<rparr>"
proof -
  let ?it1 = "MapIt \<lparr>m_ety = TNumber, m_vals = [(''b'', NNumber 1), (''a'', NNumber 2)],
                     m_keys = [''a'', ''b''], m_idx = - 1\<rparr>
      :: (int list, int list \<times> int option \<times> nat) ElementIterator"
  let ?it2 = "MapIt \<lparr>m_ety = TNumber, m_vals = [(''a'', NNumber 2), (''b'', NNumber 1)],
                     m_keys = [''a'', ''b''], m_idx = - 1\<rparr>
      :: (int list, int list \<times> int option \<times> nat) ElementIterator"
  have sv: "same_value (Value (TMap TNumber) (NMap [(''b'', NNumber 1), (''a'', NNumber 2 :: int list native)]))
     (Value (TMap TNumber) (NMap [(''a'', NNumber 2), (''b'', NNumber 1)]))"
    by (auto simp: same_entries_def)
  have n1: "new_elementIterator sample_set
       (Value (TMap TNumber) (NMap [(''b'', NNumber 1), (''a'', NNumber 2)])) [] = Inr (0, [?it1])"
    by (simp add: new_elementIterator_def elementIterator_map and_then_simps)
  have n2: "new_elementIterator sample_set
       (Value (TMap TNumber) (NMap [(''a'', NNumber 2), (''b'', NNumber 1)])) [?it1] =
     Inr (1, [?it1, ?it2])"
    by (simp add: new_elementIterator_def elementIterator_map and_then_simps)
  have o: "fst (calls_at sample_set 0 [CallNext, CallElement] [?it1, ?it2]) =
     [NextReturned True, ElementReturned (Value TString (NString ''a''), Value TNumber (NNumber 2))]"
    by (simp add: Next_at_def Element_at_def mapElementIterator_Next_def
        mapElementIterator_Element_def index_def and_then_simps StringVal_def map_index_def)
  note t = independent_iterators [OF sv n1 n2]
  have a: "fst (calls_at sample_set 0 cs [?it1, ?it2]) = fst (calls_at sample_set 1 cs [?it1, ?it2])"
    for cs
    using t by blast
  have b: "snd (calls_at sample_set 0 cs [?it1, ?it2]) ! 1 = [?it1, ?it2] ! 1" for cs
    using t by blast
  have c: "[?it1, ?it2] ! 1 = ?it2"
    by simp
  show ?thesis
    using sv n1 n2 o a [of "[CallNext, CallElement]"] b [of "[CallNext, CallElement]"] c
    by (simp only: simp_thms)
qed

end
